theory Spec2Isabelle
  imports Complex_Main "HOL-Library.Word" "HOL-Library.Signed_Division"
begin

section \<open>The bracelet firmware (pulsera/src/main.cpp)\<close>

text \<open>
  The firmware is one translation unit: global variables, \<^verbatim>\<open>setup_wifi\<close>,
  \<^verbatim>\<open>reconnect\<close>, \<^verbatim>\<open>setup\<close> and \<^verbatim>\<open>loop\<close>. The model keeps the globals in a
  record that every function takes and returns, and it records what the code does to the
  outside world as a list of events, in program order: each call of
  \<^verbatim>\<open>client.publish\<close>, each \<^verbatim>\<open>delay\<close>, each \<^verbatim>\<open>begin\<close> of a sensor driver and each
  call that asks a driver for a sample. What the outside world answers (the clock, the
  drivers' return values, the outcome of each connection attempt) is an input.
\<close>

subsection \<open>Floating-point values\<close>

text \<open>
  A C \<^verbatim>\<open>float\<close> is a finite value, an infinity or a NaN. Finite values are kept as the
  real number they denote; rounding to 24 bits of mantissa is not modelled. The only
  arithmetic the firmware does on floats is \<^verbatim>\<open>60 / (delta / 1000.0)\<close> on an integer
  \<^verbatim>\<open>delta\<close> and the magnitude of the acceleration. A comparison with a NaN is false.
\<close>

datatype cfloat = Fin real | PInf | NInf | NaN

fun isnan :: "cfloat \<Rightarrow> bool" where
  "isnan NaN = True"
| "isnan _ = False"

fun f_lt :: "cfloat \<Rightarrow> real \<Rightarrow> bool" where
  "f_lt (Fin a) c = (a < c)"
| "f_lt NInf c = True"
| "f_lt PInf c = False"
| "f_lt NaN c = False"

fun f_gt :: "cfloat \<Rightarrow> real \<Rightarrow> bool" where
  "f_gt (Fin a) c = (a > c)"
| "f_gt PInf c = True"
| "f_gt NInf c = False"
| "f_gt NaN c = False"

fun f_le :: "cfloat \<Rightarrow> real \<Rightarrow> bool" where
  "f_le (Fin a) c = (a \<le> c)"
| "f_le NInf c = True"
| "f_le PInf c = False"
| "f_le NaN c = False"

fun f_ge :: "cfloat \<Rightarrow> real \<Rightarrow> bool" where
  "f_ge (Fin a) c = (a \<ge> c)"
| "f_ge PInf c = True"
| "f_ge NInf c = False"
| "f_ge NaN c = False"

text \<open>
  \<^verbatim>\<open>(byte)f\<close>: the fraction is dropped (towards zero) and the low eight bits are kept.
  The code casts only under its gate \<^verbatim>\<open>20 < f < 255\<close>, where \<^verbatim>\<open>f\<close> is finite.
\<close>

fun byte_cast :: "cfloat \<Rightarrow> 8 word" where
  "byte_cast (Fin r) = word_of_int (if 0 \<le> r then \<lfloor>r\<rfloor> else \<lceil>r\<rceil>)"
| "byte_cast _ = 0"

subsection \<open>Events\<close>

datatype sensor = HTU21D | MAX30105 | MMA8452Q

text \<open>
  The payload of a publication is an Arduino \<^verbatim>\<open>String\<close> expression: a concatenation of
  literals, \<^verbatim>\<open>String(n)\<close> of an integer, \<^verbatim>\<open>String((int)f)\<close> of a float and
  \<^verbatim>\<open>String(f, d)\<close> of a float with \<^verbatim>\<open>d\<close> decimals. The conversion to digits is the
  Arduino core's; the model keeps the pieces.
\<close>

datatype piece = Lit string | OfInt int | OfIntCast cfloat | OfFloat cfloat nat

type_synonym payload = "piece list"

datatype event =
    Pub string payload
  | Delay nat
  | Begin sensor
  | Sample sensor

fun pubs_on :: "string \<Rightarrow> event list \<Rightarrow> payload list" where
  "pubs_on t [] = []"
| "pubs_on t (Pub u p # es) = (if u = t then p # pubs_on t es else pubs_on t es)"
| "pubs_on t (e # es) = pubs_on t es"

fun topics :: "event list \<Rightarrow> string list" where
  "topics [] = []"
| "topics (Pub u p # es) = u # topics es"
| "topics (e # es) = topics es"

subsection \<open>Global variables\<close>

definition RATE_SIZE :: nat where
  "RATE_SIZE = 4"

record state =
  htu21d_ok :: bool
  max30102_ok :: bool
  accel_ok :: bool
  rates :: "8 word list"
  rateSpot :: "8 word"
  lastBeat :: "32 word"
  beatsPerMinute :: cfloat
  beatAvg :: int
  lastMsg :: "32 word"
  contador :: int

text \<open>The initializers of the globals and of the statics of \<^verbatim>\<open>loop\<close>.\<close>

definition initial :: state where
  "initial =
     \<lparr>htu21d_ok = False, max30102_ok = False, accel_ok = False,
      rates = replicate RATE_SIZE 0, rateSpot = 0, lastBeat = 0,
      beatsPerMinute = Fin 0, beatAvg = 0, lastMsg = 0, contador = 0\<rparr>"

datatype error = ReconnectNeverReturns | SignedOverflow

subsection \<open>\<^verbatim>\<open>setup_wifi\<close> and \<^verbatim>\<open>reconnect\<close>\<close>

text \<open>
  \<^verbatim>\<open>while (WiFi.status() != WL_CONNECTED && intentos < 30) { delay(500); intentos++; }\<close>
  where \<open>st k\<close> says whether the \<open>k\<close>-th poll finds the station associated.
\<close>

function wifi_poll :: "(nat \<Rightarrow> bool) \<Rightarrow> nat \<Rightarrow> event list \<Rightarrow> event list" where
  "wifi_poll st intentos ev =
     (if \<not> st intentos \<and> intentos < 30
      then wifi_poll st (Suc intentos) (ev @ [Delay 500])
      else ev)"
  by pat_completeness auto
termination
  by (relation "measure (\<lambda>(st, intentos, ev). 30 - intentos)") auto

declare wifi_poll.simps [simp del]

definition setup_wifi :: "(nat \<Rightarrow> bool) \<Rightarrow> event list" where
  "setup_wifi st = wifi_poll st 0 [Delay 10]"

text \<open>
  \<^verbatim>\<open>while (!client.connected()) { if (client.connect(...)) publish; else delay(5000); }\<close>
  The loop has no bound. \<open>conn k\<close> is the outcome of the \<open>k\<close>-th call of
  \<^verbatim>\<open>client.connect\<close>, \<open>c\<close> is what \<^verbatim>\<open>client.connected()\<close> answers at the loop's
  test: the link's state on entry, true after a successful \<^verbatim>\<open>connect\<close> and false after
  a failed one. The result is the number of calls made and the events, \<open>None\<close> when
  the loop never ends.
\<close>

definition status_pub :: event where
  "status_pub =
     Pub ''sensores/status'' [Lit ''ESP32 conectado - Iniciando lecturas de sensores'']"

partial_function (option) reconnect ::
  "(nat \<Rightarrow> bool) \<Rightarrow> bool \<Rightarrow> nat \<Rightarrow> event list \<Rightarrow> (nat \<times> event list) option" where
  "reconnect conn c k ev =
     (if c then Some (k, ev)
      else if conn k then reconnect conn True (Suc k) (ev @ [status_pub])
      else reconnect conn False (Suc k) (ev @ [Delay 5000]))"

subsection \<open>\<^verbatim>\<open>setup\<close>\<close>

record boot =
  wifi_status :: "nat \<Rightarrow> bool"
  boot_connect :: "nat \<Rightarrow> bool"
  htu_begin :: bool
  max_begin :: bool
  accel_begin :: bool

definition resumen :: "state \<Rightarrow> string" where
  "resumen s =
     ''Sensores activos: ''
     @ (if htu21d_ok s then ''HTU21D '' else [])
     @ (if max30102_ok s then ''MAX30105 '' else [])
     @ (if accel_ok s then ''MMA8452Q '' else [])
     @ (if \<not> htu21d_ok s \<and> \<not> max30102_ok s \<and> \<not> accel_ok s then ''NINGUNO'' else [])"

definition init_sensors :: "boot \<Rightarrow> state \<Rightarrow> state \<times> event list" where
  "init_sensors b s =
     (let s1 = s\<lparr>htu21d_ok := htu_begin b\<rparr>;
          e1 = [Begin HTU21D,
                if htu_begin b
                then Pub ''sensores/htu21d'' [Lit ''HTU21D inicializado correctamente'']
                else Pub ''sensores/error'' [Lit ''HTU21D no encontrado'']];
          s2 = s1\<lparr>max30102_ok := max_begin b\<rparr>;
          e2 = [Begin MAX30105,
                if max_begin b
                then Pub ''sensores/max30105'' [Lit ''MAX30105 inicializado correctamente'']
                else Pub ''sensores/error'' [Lit ''MAX30105 no encontrado'']];
          s3 = s2\<lparr>accel_ok := accel_begin b\<rparr>;
          e3 = [Begin MMA8452Q,
                if accel_begin b
                then Pub ''sensores/mma8452q''
                       [Lit ''MMA8452Q inicializado correctamente - Escala 2g'']
                else Pub ''sensores/error'' [Lit ''MMA8452Q no encontrado'']]
      in (s3, e1 @ e2 @ e3 @ [Pub ''sensores/resumen'' [Lit (resumen s3)]]))"

text \<open>
  \<^verbatim>\<open>setup\<close>, here \<open>setup_main\<close>, runs on the initial globals. The client has never been connected when
  \<^verbatim>\<open>reconnect\<close> is entered. The configuration calls on the drivers (scale, data rate,
  LED amplitudes) leave no trace in the globals and are not events.
\<close>

definition setup_main :: "boot \<Rightarrow> error + state \<times> event list" where
  "setup_main b =
     (case reconnect (boot_connect b) False 0 (setup_wifi (wifi_status b)) of
        None \<Rightarrow> Inl ReconnectNeverReturns
      | Some (k, ev) \<Rightarrow>
          (let (s, evs) = init_sensors b initial
           in Inr (s, ev
                      @ [Pub ''sensores/info'' [Lit ''Inicializando sensores en ESP32-C3''],
                         Pub ''sensores/config'' [Lit ''I2C: SDA=GPIO6, SCL=GPIO7, 100kHz'']]
                      @ evs)))"

subsection \<open>\<^verbatim>\<open>loop\<close>\<close>

text \<open>What one call of \<^verbatim>\<open>loop\<close> reads from the outside, in the order it reads it.\<close>

record input =
  link_up :: bool
  connect_results :: "nat \<Rightarrow> bool"
  now :: "32 word"
  measure_ok :: bool
  temperatura :: cfloat
  humedad :: cfloat
  irValue :: int
  beat :: bool
  millis_delta :: "32 word"
  millis_beat :: "32 word"
  available :: bool
  acc_x :: real
  acc_y :: real
  acc_z :: real
  wifi_ip :: string
  wifi_connected :: bool
  millis_uptime :: "32 word"

text \<open>Lines 146 to 165: the environment sensor.\<close>

definition read_htu21d :: "state \<Rightarrow> input \<Rightarrow> event list" where
  "read_htu21d s i =
     (if htu21d_ok s then
        Sample HTU21D #
        (if measure_ok i then
           [if \<not> isnan (temperatura i) \<and> f_ge (temperatura i) (- 40) \<and> f_le (temperatura i) 125
            then Pub ''sensores/temperatura'' [OfFloat (temperatura i) 2]
            else Pub ''sensores/error'' [Lit ''HTU21D: temperatura invalida''],
            if \<not> isnan (humedad i) \<and> f_ge (humedad i) 0 \<and> f_le (humedad i) 100
            then Pub ''sensores/humedad'' [OfFloat (humedad i) 2]
            else Pub ''sensores/error'' [Lit ''HTU21D: humedad invalida'']]
         else [Pub ''sensores/error'' [Lit ''HTU21D: fallo en medicion'']])
      else [])"

text \<open>
  Lines 189 to 192: \<^verbatim>\<open>beatAvg = 0; for (byte x = 0; x < RATE_SIZE; x++) beatAvg += rates[x];\<close>
  and then \<^verbatim>\<open>beatAvg /= RATE_SIZE\<close>, the division of C on \<^verbatim>\<open>int\<close>.
\<close>

function avg_loop :: "8 word list \<Rightarrow> nat \<Rightarrow> int \<Rightarrow> int" where
  "avg_loop rs x acc =
     (if x < RATE_SIZE then avg_loop rs (Suc x) (acc + uint (rs ! x)) else acc)"
  by pat_completeness auto
termination
  by (relation "measure (\<lambda>(rs, x, acc). RATE_SIZE - x)") auto

declare avg_loop.simps [simp del]

text \<open>
  Line 181: \<^verbatim>\<open>beatsPerMinute = 60 / (delta / 1000.0)\<close> on a \<^verbatim>\<open>long delta\<close>. A zero
  \<^verbatim>\<open>delta\<close> divides by \<^verbatim>\<open>0.0\<close>, which is plus infinity. The quotient is kept exact.
  The code rounds it twice, as a \<^verbatim>\<open>double\<close> and then to \<^verbatim>\<open>float\<close>, with a relative
  error below \<open>2 ^ -23\<close>. A \<^verbatim>\<open>delta\<close> passes the gate of line 183 from 236 to 2999 ms,
  and there \<open>60000 / delta\<close> is an integer or at least \<open>1 / 2999\<close> away from one (and
  from 20 and 255), so the rounding changes neither the outcome of the gate nor the
  integer part that is stored.
\<close>

definition bpm_of :: "int \<Rightarrow> cfloat" where
  "bpm_of delta = (if delta = 0 then PInf else Fin (60 / (real_of_int delta / 1000)))"

text \<open>
  Lines 178 to 193, run when \<^verbatim>\<open>checkForBeat\<close> answers true. \<^verbatim>\<open>millis()\<close> is an
  \<^verbatim>\<open>unsigned long\<close> of 32 bits and \<^verbatim>\<open>lastBeat\<close> a \<^verbatim>\<open>long\<close>: the subtraction is done
  modulo \<open>2 ^ 32\<close> and \<^verbatim>\<open>delta\<close> reads the difference as a signed value.
\<close>

definition heart_beat :: "state \<Rightarrow> input \<Rightarrow> state" where
  "heart_beat s i =
     (let delta = sint (millis_delta i - lastBeat s);
          s1 = s\<lparr>lastBeat := millis_beat i, beatsPerMinute := bpm_of delta\<rparr>
      in if f_lt (beatsPerMinute s1) 255 \<and> f_gt (beatsPerMinute s1) 20 then
           (let rs = (rates s1)[unat (rateSpot s1) := byte_cast (beatsPerMinute s1)];
                spot = (rateSpot s1 + 1) mod word_of_nat RATE_SIZE
            in s1\<lparr>rates := rs, rateSpot := spot,
                  beatAvg := avg_loop rs 0 0 sdiv int RATE_SIZE\<rparr>)
         else s1)"

definition finger_status :: "int \<Rightarrow> string" where
  "finger_status ir = (if ir < 50000 then ''no_detectado'' else ''detectado'')"

text \<open>Lines 168 to 210: the optical sensor.\<close>

definition read_max30105 :: "state \<Rightarrow> input \<Rightarrow> state \<times> event list" where
  \<open>read_max30105 s i =
     (if max30102_ok s then
        (let s1 = (if beat i then heart_beat s i else s);
             finger = finger_status (irValue i)
         in (s1,
             [Sample MAX30105,
              Pub ''sensores/ir_value'' [OfInt (irValue i)],
              Pub ''sensores/bpm'' [OfIntCast (beatsPerMinute s1)],
              Pub ''sensores/bpm_avg'' [OfInt (beatAvg s1)],
              Pub ''sensores/finger_status'' [Lit finger],
              Pub ''sensores/heart_data''
                [Lit ''{"ir":'', OfInt (irValue i),
                 Lit '',"bpm":'', OfIntCast (beatsPerMinute s1),
                 Lit '',"bpm_avg":'', OfInt (beatAvg s1),
                 Lit '',"finger":"'', Lit finger, Lit ''"}'']]))
      else (s, []))\<close>

text \<open>
  Lines 237 to 241. \<^verbatim>\<open>abs\<close> on a \<^verbatim>\<open>float\<close> is its absolute value, and the comparisons
  with \<^verbatim>\<open>0.5\<close> and \<^verbatim>\<open>-0.5\<close> are exact on finite values.
\<close>

definition orientacion :: "real \<Rightarrow> real \<Rightarrow> real \<Rightarrow> string" where
  "orientacion x y z =
     (if \<bar>z\<bar> > \<bar>x\<bar> \<and> \<bar>z\<bar> > \<bar>y\<bar> then
        (if z > 0.5 then ''boca_arriba''
         else if z < - 0.5 then ''boca_abajo''
         else ''indefinida'')
      else ''indefinida'')"

definition magnitud :: "real \<Rightarrow> real \<Rightarrow> real \<Rightarrow> real" where
  "magnitud x y z = sqrt (x * x + y * y + z * z)"

text \<open>
  Lines 213 to 254: the accelerometer. The driver computes each axis from a 12-bit count,
  so \<^verbatim>\<open>x\<close>, \<^verbatim>\<open>y\<close> and \<^verbatim>\<open>z\<close> are finite.
\<close>

definition read_mma8452q :: "state \<Rightarrow> input \<Rightarrow> event list" where
  \<open>read_mma8452q s i =
     (if accel_ok s then
        Sample MMA8452Q #
        (if available i then
           (let x = acc_x i; y = acc_y i; z = acc_z i; m = magnitud x y z
            in (if x \<ge> - 4 \<and> x \<le> 4 then [Pub ''sensores/accel_x'' [OfFloat (Fin x) 3]] else [])
               @ (if y \<ge> - 4 \<and> y \<le> 4 then [Pub ''sensores/accel_y'' [OfFloat (Fin y) 3]] else [])
               @ (if z \<ge> - 4 \<and> z \<le> 4 then [Pub ''sensores/accel_z'' [OfFloat (Fin z) 3]] else [])
               @ [Pub ''sensores/accel_mag'' [OfFloat (Fin m) 3],
                  Pub ''sensores/orientacion'' [Lit (orientacion x y z)],
                  Pub ''sensores/movimiento'' [Lit (if m > 1.5 then ''SI'' else ''NO'')],
                  Pub ''sensores/accel_datos''
                    [Lit ''{"x":'', OfFloat (Fin x) 3,
                     Lit '',"y":'', OfFloat (Fin y) 3,
                     Lit '',"z":'', OfFloat (Fin z) 3,
                     Lit '',"mag":'', OfFloat (Fin m) 3, Lit ''}'']])
         else [Pub ''sensores/error'' [Lit ''MMA8452Q: sin nuevos datos'']])
      else [])\<close>

text \<open>Lines 257 to 266: the state of the system.\<close>

definition system_status :: "state \<Rightarrow> input \<Rightarrow> event list" where
  "system_status s i =
     [Pub ''sistema/wifi_ip'' [Lit (wifi_ip i)],
      Pub ''sistema/wifi_status''
        [Lit (if wifi_connected i then ''conectado'' else ''desconectado'')],
      Pub ''sistema/uptime'' [OfInt (uint (millis_uptime i div 1000))]]
     @ (if contador s smod 5 = 0 then
          [Pub ''sensores/estado_htu21d'' [Lit (if htu21d_ok s then ''OK'' else ''ERROR'')],
           Pub ''sensores/estado_max30105'' [Lit (if max30102_ok s then ''OK'' else ''ERROR'')],
           Pub ''sensores/estado_mma8452q'' [Lit (if accel_ok s then ''OK'' else ''ERROR'')]]
        else [])"

text \<open>
  Lines 129 and 130: \<^verbatim>\<open>lastMsg = now; contador++;\<close>. \<^verbatim>\<open>contador\<close> is an \<^verbatim>\<open>int\<close>
  of 32 bits: the increment at its largest value is undefined in C++, and \<open>tick\<close>
  below makes it an error.
\<close>

definition advance :: "state \<Rightarrow> input \<Rightarrow> state" where
  "advance s i = s\<lparr>lastMsg := now i, contador := contador s + 1\<rparr>"

text \<open>Lines 132 to 143: the counter, and the summary when \<^verbatim>\<open>contador % 10 == 1\<close>.\<close>

definition announce :: "state \<Rightarrow> event list" where
  "announce s =
     Pub ''sensores/contador'' [OfInt (contador s)]
     # (if contador s smod 10 = 1 then [Pub ''sensores/resumen'' [Lit (resumen s)]] else [])"

text \<open>Lines 129 to 266, the body of \<^verbatim>\<open>if (now - lastMsg > 2000)\<close>.\<close>

definition tick :: "state \<Rightarrow> input \<Rightarrow> error + state \<times> event list" where
  "tick s i =
     (if contador s = 2147483647 then Inl SignedOverflow
      else
        (let s1 = advance s i;
             e1 = announce s1;
             e2 = read_htu21d s1 i;
             (s2, e3) = read_max30105 s1 i;
             e4 = read_mma8452q s2 i;
             e5 = system_status s2 i
         in Inr (s2, e1 @ e2 @ e3 @ e4 @ e5)))"

definition fires :: "state \<Rightarrow> input \<Rightarrow> bool" where
  "fires s i = (now i - lastMsg s > 2000)"

definition loop :: "state \<Rightarrow> input \<Rightarrow> error + state \<times> event list" where
  "loop s i =
     (case (if \<not> link_up i then reconnect (connect_results i) (link_up i) 0 []
            else Some (0, [])) of
        None \<Rightarrow> Inl ReconnectNeverReturns
      | Some (k, ev) \<Rightarrow>
          (if fires s i then
             (case tick s i of
                Inl e \<Rightarrow> Inl e
              | Inr (s', evs) \<Rightarrow> Inr (s', ev @ evs))
           else Inr (s, ev)))"

subsection \<open>Sessions\<close>

text \<open>A session is \<^verbatim>\<open>setup\<close> and then \<^verbatim>\<open>loop\<close> again and again, as the Arduino core calls them.\<close>

fun run :: "state \<Rightarrow> input list \<Rightarrow> error + state \<times> event list" where
  "run s [] = Inr (s, [])"
| "run s (i # is) =
     (case loop s i of
        Inl e \<Rightarrow> Inl e
      | Inr (s', ev) \<Rightarrow>
          (case run s' is of
             Inl e \<Rightarrow> Inl e
           | Inr (s'', evs) \<Rightarrow> Inr (s'', ev @ evs)))"

definition session :: "boot \<Rightarrow> input list \<Rightarrow> error + state \<times> event list" where
  "session b is =
     (case setup_main b of
        Inl e \<Rightarrow> Inl e
      | Inr (s, ev) \<Rightarrow>
          (case run s is of
             Inl e \<Rightarrow> Inl e
           | Inr (s', evs) \<Rightarrow> Inr (s', ev @ evs)))"

subsection \<open>A call that has not returned yet\<close>

text \<open>
  A call that never returns has no result, but it has done things. The functions below
  are \<^verbatim>\<open>reconnect\<close>, \<^verbatim>\<open>setup\<close>, \<^verbatim>\<open>loop\<close> and a session again, with a bound \<open>n\<close> on
  the number of turns that each \<^verbatim>\<open>while\<close> loop of \<^verbatim>\<open>reconnect\<close> may take: the result is
  \<open>Inl\<close> with the events so far when a loop is still turning after \<open>n\<close> turns, and
  \<open>Inr\<close> with the outcome of the call otherwise.
\<close>

fun reconnect_within ::
  "(nat \<Rightarrow> bool) \<Rightarrow> bool \<Rightarrow> nat \<Rightarrow> event list \<Rightarrow> nat \<Rightarrow> event list + nat \<times> event list" where
  "reconnect_within conn c k ev 0 = (if c then Inr (k, ev) else Inl ev)"
| "reconnect_within conn c k ev (Suc n) =
     (if c then Inr (k, ev)
      else if conn k then reconnect_within conn True (Suc k) (ev @ [status_pub]) n
      else reconnect_within conn False (Suc k) (ev @ [Delay 5000]) n)"

definition setup_within :: "boot \<Rightarrow> nat \<Rightarrow> event list + (error + state \<times> event list)" where
  "setup_within b n =
     (case reconnect_within (boot_connect b) False 0 (setup_wifi (wifi_status b)) n of
        Inl ev \<Rightarrow> Inl ev
      | Inr (k, ev) \<Rightarrow>
          (let (s, evs) = init_sensors b initial
           in Inr (Inr (s, ev
                      @ [Pub ''sensores/info'' [Lit ''Inicializando sensores en ESP32-C3''],
                         Pub ''sensores/config'' [Lit ''I2C: SDA=GPIO6, SCL=GPIO7, 100kHz'']]
                      @ evs))))"

definition loop_within :: "state \<Rightarrow> input \<Rightarrow> nat \<Rightarrow> event list + (error + state \<times> event list)" where
  "loop_within s i n =
     (case (if \<not> link_up i then reconnect_within (connect_results i) (link_up i) 0 [] n
            else Inr (0, [])) of
        Inl ev \<Rightarrow> Inl ev
      | Inr (k, ev) \<Rightarrow>
          Inr (if fires s i then
                 (case tick s i of
                    Inl e \<Rightarrow> Inl e
                  | Inr (s', evs) \<Rightarrow> Inr (s', ev @ evs))
               else Inr (s, ev)))"

fun run_within :: "state \<Rightarrow> input list \<Rightarrow> nat \<Rightarrow> event list + (error + state \<times> event list)" where
  "run_within s [] n = Inr (Inr (s, []))"
| "run_within s (i # is) n =
     (case loop_within s i n of
        Inl ev \<Rightarrow> Inl ev
      | Inr (Inl e) \<Rightarrow> Inr (Inl e)
      | Inr (Inr (s', ev)) \<Rightarrow>
          (case run_within s' is n of
             Inl evs \<Rightarrow> Inl (ev @ evs)
           | Inr (Inl e) \<Rightarrow> Inr (Inl e)
           | Inr (Inr (s'', evs)) \<Rightarrow> Inr (Inr (s'', ev @ evs))))"

definition session_within :: "boot \<Rightarrow> input list \<Rightarrow> nat \<Rightarrow> event list + (error + state \<times> event list)" where
  "session_within b is n =
     (case setup_within b n of
        Inl ev \<Rightarrow> Inl ev
      | Inr (Inl e) \<Rightarrow> Inr (Inl e)
      | Inr (Inr (s, ev)) \<Rightarrow>
          (case run_within s is n of
             Inl evs \<Rightarrow> Inl (ev @ evs)
           | Inr (Inl e) \<Rightarrow> Inr (Inl e)
           | Inr (Inr (s', evs)) \<Rightarrow> Inr (Inr (s', ev @ evs))))"

subsection \<open>Observations and concrete inputs\<close>

text \<open>The health flag of a sensor, the outcome of its \<^verbatim>\<open>begin\<close>, and the topics that carry its readings.\<close>

fun sensor_ok :: "state \<Rightarrow> sensor \<Rightarrow> bool" where
  "sensor_ok s HTU21D = htu21d_ok s"
| "sensor_ok s MAX30105 = max30102_ok s"
| "sensor_ok s MMA8452Q = accel_ok s"

fun begin_ok :: "boot \<Rightarrow> sensor \<Rightarrow> bool" where
  "begin_ok b HTU21D = htu_begin b"
| "begin_ok b MAX30105 = max_begin b"
| "begin_ok b MMA8452Q = accel_begin b"

fun reading_topics :: "sensor \<Rightarrow> string list" where
  "reading_topics HTU21D = [''sensores/temperatura'', ''sensores/humedad'']"
| "reading_topics MAX30105 =
     [''sensores/ir_value'', ''sensores/bpm'', ''sensores/bpm_avg'',
      ''sensores/finger_status'', ''sensores/heart_data'']"
| "reading_topics MMA8452Q =
     [''sensores/accel_x'', ''sensores/accel_y'', ''sensores/accel_z'', ''sensores/accel_mag'',
      ''sensores/orientacion'', ''sensores/movimiento'', ''sensores/accel_datos'']"

text \<open>An event concerns a sensor when it is a call into its driver or a publication of its readings.\<close>

fun concerns :: "sensor \<Rightarrow> event \<Rightarrow> bool" where
  "concerns x (Pub t p) = (t \<in> set (reading_topics x))"
| "concerns x (Begin y) = (x = y)"
| "concerns x (Sample y) = (x = y)"
| "concerns x (Delay n) = False"

definition never :: "nat \<Rightarrow> bool" where
  "never k = False"

definition at_once :: "nat \<Rightarrow> bool" where
  "at_once k = True"

definition third_try :: "nat \<Rightarrow> bool" where
  "third_try k = (k = 2)"

text \<open>A boot where the network and the broker answer at once, with the given outcome of each \<^verbatim>\<open>begin\<close>.\<close>

definition boot_with :: "bool \<Rightarrow> bool \<Rightarrow> bool \<Rightarrow> boot" where
  "boot_with h m a =
     \<lparr>wifi_status = at_once, boot_connect = at_once,
      htu_begin = h, max_begin = m, accel_begin = a\<rparr>"

definition booted :: "bool \<Rightarrow> bool \<Rightarrow> bool \<Rightarrow> state" where
  "booted h m a = initial\<lparr>htu21d_ok := h, max30102_ok := m, accel_ok := a\<rparr>"

text \<open>
  One call of \<^verbatim>\<open>loop\<close> 2001 ms after boot: the link is up, 25 degrees and 50 percent, a
  finger on the optical sensor and no beat, the device lying face up and still.
\<close>

definition sample_input :: input where
  "sample_input =
     \<lparr>link_up = True, connect_results = at_once, now = 2001, measure_ok = True,
      temperatura = Fin 25, humedad = Fin 50, irValue = 80000, beat = False,
      millis_delta = 2001, millis_beat = 2001, available = True,
      acc_x = 0, acc_y = 0, acc_z = 1,
      wifi_ip = ''192.168.1.50'', wifi_connected = True, millis_uptime = 2002\<rparr>"

text \<open>A beat detected at \<open>t\<close> ms, in a call of \<^verbatim>\<open>loop\<close> at \<open>t\<close> ms.\<close>

definition beat_at :: "32 word \<Rightarrow> input" where
  "beat_at t = sample_input\<lparr>now := t, beat := True, millis_delta := t, millis_beat := t\<rparr>"

text \<open>
  Two predicates on the globals: the average is the sum of the slots divided by their
  number, as the division of C computes it; and the buffer has its four slots, the write
  index points at one of them, and a slot holds zero or a value from 20 to 254.
\<close>

definition avg_inv :: "state \<Rightarrow> bool" where
  "avg_inv s \<longleftrightarrow>
     length (rates s) = RATE_SIZE \<and> beatAvg s = (\<Sum>r\<leftarrow>rates s. uint r) div int RATE_SIZE"

definition slots_inv :: "state \<Rightarrow> bool" where
  "slots_inv s \<longleftrightarrow>
     length (rates s) = RATE_SIZE \<and> unat (rateSpot s) < RATE_SIZE
     \<and> (\<forall>r\<in>set (rates s). r = 0 \<or> (20 \<le> uint r \<and> uint r \<le> 254))"

text \<open>
  A long session after a boot where no sensor was found: the \<open>k\<close>-th call of
  \<^verbatim>\<open>loop\<close> comes \<open>2001 * k\<close> ms after boot (on the 32-bit clock), so every call
  runs a tick. \<open>calls k n\<close> are the calls \<open>k + 1\<close> to \<open>k + n\<close>, and
  \<open>after_calls n\<close> are the globals after the first \<open>n\<close>.
\<close>

definition call_at :: "nat \<Rightarrow> input" where
  "call_at k = sample_input\<lparr>now := word_of_nat (2001 * k)\<rparr>"

fun calls :: "nat \<Rightarrow> nat \<Rightarrow> input list" where
  "calls k 0 = []"
| "calls k (Suc n) = call_at (Suc k) # calls (Suc k) n"

definition after_calls :: "nat \<Rightarrow> state" where
  "after_calls n =
     booted False False False\<lparr>lastMsg := word_of_nat (2001 * n), contador := int n\<rparr>"

section \<open>Properties\<close>

subsection \<open>Events of a list\<close>

lemma pubs_on_append [simp]: "pubs_on t (xs @ ys) = pubs_on t xs @ pubs_on t ys"
  by (induction t xs rule: pubs_on.induct) auto

lemma pubs_on_none: "\<forall>p. Pub t p \<notin> set ev \<Longrightarrow> pubs_on t ev = []"
  by (induction t ev rule: pubs_on.induct) auto

subsection \<open>The reconnection loop\<close>

lemma reconnect_up: "reconnect conn True k ev = Some (k, ev)"
  by (subst reconnect.simps) simp

lemma reconnect_ok: "conn k \<Longrightarrow> reconnect conn False k ev = Some (Suc k, ev @ [status_pub])"
  by (subst reconnect.simps) (simp add: reconnect_up)

lemma reconnect_fail:
  "\<not> conn k \<Longrightarrow> reconnect conn False k ev = reconnect conn False (Suc k) (ev @ [Delay 5000])"
  by (subst reconnect.simps) simp

text \<open>The loop ends only when the link is up on entry or some later attempt succeeds.\<close>

lemma reconnect_Some_cases:
  assumes "reconnect conn c k ev = Some r"
  shows "c \<or> (\<exists>j\<ge>k. conn j)"
proof (rule reconnect.raw_induct
    [where P = "\<lambda>conn c k ev r. c \<or> (\<exists>j\<ge>k. conn j)", OF _ assms], goal_cases)
  case (1 f conn c k ev r)
  show ?case
  proof (cases c)
    case True
    then show ?thesis by simp
  next
    case nc: False
    show ?thesis
    proof (cases "conn k")
      case True
      then have "\<exists>j\<ge>k. conn j" by (intro exI[of _ k]) simp
      then show ?thesis by simp
    next
      case False
      with nc 1(2) have "f conn False (Suc k) (ev @ [Delay 5000]) = Some r" by simp
      from 1(1)[OF this] obtain j where "j \<ge> Suc k" "conn j" by auto
      then have "\<exists>j\<ge>k. conn j" by (intro exI[of _ j]) simp
      then show ?thesis by simp
    qed
  qed
qed

lemma reconnect_never: "\<forall>j\<ge>k. \<not> conn j \<Longrightarrow> reconnect conn False k ev = None"
  using reconnect_Some_cases[of conn False k ev] by (cases "reconnect conn False k ev") auto

text \<open>After \<open>n\<close> failures and a success the loop has waited \<open>n\<close> times and published its notice.\<close>

lemma reconnect_after:
  "conn (k + n) \<Longrightarrow> \<forall>j<n. \<not> conn (k + j) \<Longrightarrow>
   reconnect conn False k ev =
     Some (Suc (k + n), ev @ replicate n (Delay 5000) @ [status_pub])"
proof (induction n arbitrary: k ev)
  case 0
  then show ?case by (simp add: reconnect_ok)
next
  case (Suc n)
  from Suc.prems(2) have nk: "\<not> conn k" by (metis add.right_neutral zero_less_Suc)
  have a: "conn (Suc k + n)" using Suc.prems(1) by simp
  have b: "\<forall>j<n. \<not> conn (Suc k + j)"
    using Suc.prems(2) by (metis Suc_less_eq add_Suc_right add_Suc)
  show ?case
    by (simp add: reconnect_fail[of conn k, OF nk] Suc.IH[of "Suc k", OF a b]
        replicate_append_same del: replicate_Suc flip: replicate_Suc)
qed

lemma reconnect_events:
  assumes "reconnect conn c k ev = Some r"
  shows "set (snd r) \<subseteq> set ev \<union> {Delay 5000, status_pub}"
proof (rule reconnect.raw_induct
    [where P = "\<lambda>conn c k ev r. set (snd r) \<subseteq> set ev \<union> {Delay 5000, status_pub}",
      OF _ assms], goal_cases)
  case (1 f conn c k ev r)
  show ?case
  proof (cases c)
    case True
    with 1(2) show ?thesis by auto
  next
    case nc: False
    show ?thesis
    proof (cases "conn k")
      case True
      with nc 1(2) have "f conn True (Suc k) (ev @ [status_pub]) = Some r" by simp
      from 1(1)[OF this] show ?thesis by auto
    next
      case False
      with nc 1(2) have "f conn False (Suc k) (ev @ [Delay 5000]) = Some r" by simp
      from 1(1)[OF this] show ?thesis by auto
    qed
  qed
qed

lemma pubs_on_reconnect:
  assumes "set ev0 \<subseteq> {Delay 5000, status_pub}" and "t \<noteq> ''sensores/status''"
  shows "pubs_on t ev0 = []"
  using assms by (intro pubs_on_none) (auto simp: status_pub_def)

subsection \<open>One call of \<^verbatim>\<open>loop\<close>\<close>

lemma heart_beat_flags [simp]:
  "htu21d_ok (heart_beat s i) = htu21d_ok s"
  "max30102_ok (heart_beat s i) = max30102_ok s"
  "accel_ok (heart_beat s i) = accel_ok s"
  "contador (heart_beat s i) = contador s"
  "lastMsg (heart_beat s i) = lastMsg s"
  by (simp_all add: heart_beat_def Let_def)

lemma read_max30105_flags [simp]:
  "htu21d_ok (fst (read_max30105 s i)) = htu21d_ok s"
  "max30102_ok (fst (read_max30105 s i)) = max30102_ok s"
  "accel_ok (fst (read_max30105 s i)) = accel_ok s"
  "contador (fst (read_max30105 s i)) = contador s"
  "lastMsg (fst (read_max30105 s i)) = lastMsg s"
  by (simp_all add: read_max30105_def Let_def)

lemma advance_flags [simp]:
  "htu21d_ok (advance s i) = htu21d_ok s"
  "max30102_ok (advance s i) = max30102_ok s"
  "accel_ok (advance s i) = accel_ok s"
  "contador (advance s i) = contador s + 1"
  "rates (advance s i) = rates s"
  "rateSpot (advance s i) = rateSpot s"
  "beatAvg (advance s i) = beatAvg s"
  by (simp_all add: advance_def)

lemma read_mma8452q_after_max [simp]:
  "read_mma8452q (fst (read_max30105 s i)) i = read_mma8452q s i"
  by (simp add: read_mma8452q_def)

lemma system_status_after_max [simp]:
  "system_status (fst (read_max30105 s i)) i = system_status s i"
  by (simp add: system_status_def)

lemma tick_Inr:
  assumes "tick s i = Inr (s', evs)"
  shows "s' = fst (read_max30105 (advance s i) i)"
    and "evs = announce (advance s i) @ read_htu21d (advance s i) i
             @ snd (read_max30105 (advance s i) i)
             @ read_mma8452q (advance s i) i @ system_status (advance s i) i"
    and "contador s \<noteq> 2147483647"
proof -
  obtain s2 e3 where m: "read_max30105 (advance s i) i = (s2, e3)"
    by (cases "read_max30105 (advance s i) i")
  then have f: "s2 = fst (read_max30105 (advance s i) i)"
    and g: "e3 = snd (read_max30105 (advance s i) i)"
    by simp_all
  from assms show "contador s \<noteq> 2147483647"
    by (auto simp: tick_def split: if_splits)
  with assms m have "s' = s2"
    and "evs = announce (advance s i) @ read_htu21d (advance s i) i @ e3
             @ read_mma8452q s2 i @ system_status s2 i"
    by (auto simp: tick_def Let_def)
  with f g show "s' = fst (read_max30105 (advance s i) i)"
    and "evs = announce (advance s i) @ read_htu21d (advance s i) i
             @ snd (read_max30105 (advance s i) i)
             @ read_mma8452q (advance s i) i @ system_status (advance s i) i"
    by simp_all
qed

lemma loop_Inr:
  assumes "loop s i = Inr (s', ev)"
  shows "\<exists>ev0. set ev0 \<subseteq> {Delay 5000, status_pub} \<and>
           (if fires s i then \<exists>evs. tick s i = Inr (s', evs) \<and> ev = ev0 @ evs
            else s' = s \<and> ev = ev0)"
proof (cases "link_up i")
  case True
  with assms show ?thesis
    by (auto simp: loop_def split: if_splits sum.splits)
next
  case False
  with assms obtain k ev0 where r: "reconnect (connect_results i) False 0 [] = Some (k, ev0)"
    by (auto simp: loop_def split: option.splits)
  from reconnect_events[OF r] have "set ev0 \<subseteq> {Delay 5000, status_pub}" by simp
  with assms False r show ?thesis
    by (auto simp: loop_def split: if_splits sum.splits)
qed

text \<open>
  What a call of \<^verbatim>\<open>loop\<close> that runs the body of the tick publishes on a topic other than
  the notice of \<^verbatim>\<open>reconnect\<close>: the publications of the five parts of the body, in order.
\<close>

lemma loop_fires_pubs:
  assumes "loop s i = Inr (s', ev)" and "fires s i" and "t \<noteq> ''sensores/status''"
  shows "pubs_on t ev =
           pubs_on t (announce (advance s i)) @ pubs_on t (read_htu21d (advance s i) i)
           @ pubs_on t (snd (read_max30105 (advance s i) i))
           @ pubs_on t (read_mma8452q (advance s i) i)
           @ pubs_on t (system_status (advance s i) i)"
proof -
  from loop_Inr[OF assms(1)] assms(2) obtain ev0 evs
    where e: "set ev0 \<subseteq> {Delay 5000, status_pub}" "tick s i = Inr (s', evs)" "ev = ev0 @ evs"
    by auto
  from pubs_on_reconnect[OF e(1) assms(3)] e(3) tick_Inr(2)[OF e(2)]
  show ?thesis by simp
qed

lemma loop_fires_state:
  assumes "loop s i = Inr (s', ev)" and "fires s i"
  shows "s' = fst (read_max30105 (advance s i) i)" and "contador s \<noteq> 2147483647"
proof -
  from loop_Inr[OF assms(1)] assms(2) obtain ev0 evs where e: "tick s i = Inr (s', evs)"
    by auto
  from tick_Inr(1)[OF e] show "s' = fst (read_max30105 (advance s i) i)" .
  from tick_Inr(3)[OF e] show "contador s \<noteq> 2147483647" .
qed

text \<open>A call of \<^verbatim>\<open>loop\<close> returns when the link is up and the counter can be incremented.\<close>

lemma loop_returns:
  assumes "link_up i" and "contador s \<noteq> 2147483647"
  shows "\<exists>s' ev. loop s i = Inr (s', ev)"
  using assms by (simp add: loop_def tick_def Let_def split: prod.splits)

subsection \<open>Publications of the parts of a tick\<close>

lemma in_range_iff:
  "(\<not> isnan t \<and> f_ge t lo \<and> f_le t hi) = (\<exists>r. t = Fin r \<and> lo \<le> r \<and> r \<le> hi)"
  by (cases t) auto

lemma magnitud_5: "magnitud 5 0 0 = 5"
proof -
  have "sqrt (5 * 5) = (5::real)" by (simp only: real_sqrt_abs2 abs_numeral)
  then show ?thesis by (simp add: magnitud_def)
qed

lemma pubs_on_announce_other:
  "t \<noteq> ''sensores/contador'' \<Longrightarrow> t \<noteq> ''sensores/resumen'' \<Longrightarrow> pubs_on t (announce s) = []"
  by (auto simp: announce_def)

lemma pubs_on_htu_other:
  "t \<notin> set (reading_topics HTU21D) \<Longrightarrow> t \<noteq> ''sensores/error'' \<Longrightarrow>
   pubs_on t (read_htu21d s i) = []"
  by (auto simp: read_htu21d_def)

lemma pubs_on_max_other:
  "t \<notin> set (reading_topics MAX30105) \<Longrightarrow> pubs_on t (snd (read_max30105 s i)) = []"
  by (auto simp: read_max30105_def Let_def)

lemma pubs_on_mma_other:
  "t \<notin> set (reading_topics MMA8452Q) \<Longrightarrow> t \<noteq> ''sensores/error'' \<Longrightarrow>
   pubs_on t (read_mma8452q s i) = []"
  by (auto simp: read_mma8452q_def Let_def)

lemma pubs_on_system_other:
  "t \<notin> {''sistema/wifi_ip'', ''sistema/wifi_status'', ''sistema/uptime'',
         ''sensores/estado_htu21d'', ''sensores/estado_max30105'', ''sensores/estado_mma8452q''}
   \<Longrightarrow> pubs_on t (system_status s i) = []"
  by (auto simp: system_status_def)

lemma pubs_on_error_mma:
  "pubs_on ''sensores/error'' (read_mma8452q s i) =
     (if accel_ok s \<and> \<not> available i then [[Lit ''MMA8452Q: sin nuevos datos'']] else [])"
  by (simp add: read_mma8452q_def Let_def)

lemmas pubs_on_other =
  pubs_on_announce_other pubs_on_htu_other pubs_on_max_other pubs_on_mma_other
  pubs_on_system_other

subsection \<open>The heart-rate estimator\<close>

lemma avg_loop_sum4:
  assumes "length rs = 4"
  shows "avg_loop rs 0 0 = (\<Sum>r\<leftarrow>rs. uint r)"
proof -
  from assms obtain a b c d where rs: "rs = [a, b, c, d]"
    by (cases rs; simp; (cases "tl rs"; simp); (cases "tl (tl rs)"; simp);
        (cases "tl (tl (tl rs))"; simp))
  show ?thesis unfolding rs by (simp add: avg_loop.simps RATE_SIZE_def numeral_nat)
qed

lemma sum_uint_nonneg: "0 \<le> (\<Sum>r\<leftarrow>rs. uint (r::8 word))"
  by (induction rs) auto

lemma sdiv_nonneg: "0 \<le> a \<Longrightarrow> a sdiv (4::int) = a div 4"
  by (cases "a = 0") (simp_all add: signed_divide_int_def)

lemma gate_finite:
  assumes "f_lt b 255" and "f_gt b 20"
  obtains r where "b = Fin r" and "20 < r" and "r < 255"
  using assms by (cases b) auto

lemma byte_cast_range:
  assumes "20 < r" and "r < 255"
  shows "uint (byte_cast (Fin r)) = \<lfloor>r\<rfloor>" and "20 \<le> \<lfloor>r\<rfloor>" and "\<lfloor>r\<rfloor> \<le> 254"
proof -
  from assms show a: "20 \<le> \<lfloor>r\<rfloor>" by linarith
  from assms show b: "\<lfloor>r\<rfloor> \<le> 254" by linarith
  from a b have "\<lfloor>r\<rfloor> mod 256 = \<lfloor>r\<rfloor>" by simp
  with assms show "uint (byte_cast (Fin r)) = \<lfloor>r\<rfloor>"
    by (simp add: uint_word_of_int)
qed

lemma heart_beat_rates:
  "rates (heart_beat s i) =
     (if f_lt (bpm_of (sint (millis_delta i - lastBeat s))) 255
         \<and> f_gt (bpm_of (sint (millis_delta i - lastBeat s))) 20
      then (rates s)[unat (rateSpot s) := byte_cast (bpm_of (sint (millis_delta i - lastBeat s)))]
      else rates s)"
  by (simp add: heart_beat_def Let_def)

lemma heart_beat_beatAvg:
  "beatAvg (heart_beat s i) =
     (if f_lt (bpm_of (sint (millis_delta i - lastBeat s))) 255
         \<and> f_gt (bpm_of (sint (millis_delta i - lastBeat s))) 20
      then avg_loop ((rates s)[unat (rateSpot s) :=
                       byte_cast (bpm_of (sint (millis_delta i - lastBeat s)))]) 0 0
           sdiv int RATE_SIZE
      else beatAvg s)"
  by (simp add: heart_beat_def Let_def)

lemma heart_beat_avg_inv:
  assumes "avg_inv s"
  shows "avg_inv (heart_beat s i)"
proof -
  let ?b = "bpm_of (sint (millis_delta i - lastBeat s))"
  let ?rs = "(rates s)[unat (rateSpot s) := byte_cast ?b]"
  from assms have len: "length ?rs = 4"
    by (simp add: avg_inv_def RATE_SIZE_def)
  have "avg_loop ?rs 0 0 sdiv 4 = (\<Sum>r\<leftarrow>?rs. uint r) div 4"
    by (simp only: avg_loop_sum4[OF len] sdiv_nonneg[OF sum_uint_nonneg])
  with assms len show ?thesis
    unfolding avg_inv_def heart_beat_rates heart_beat_beatAvg
    by (simp add: RATE_SIZE_def)
qed

lemma heart_beat_rateSpot:
  "rateSpot (heart_beat s i) =
     (if f_lt (bpm_of (sint (millis_delta i - lastBeat s))) 255
         \<and> f_gt (bpm_of (sint (millis_delta i - lastBeat s))) 20
      then (rateSpot s + 1) mod word_of_nat RATE_SIZE
      else rateSpot s)"
  by (simp add: heart_beat_def Let_def)

lemma unat_next_spot:
  "unat ((w + 1) mod word_of_nat RATE_SIZE :: 8 word) = unat (w + 1) mod 4"
  by (simp add: unat_mod RATE_SIZE_def)

lemma unat_succ_spot:
  assumes "unat (w :: 8 word) < 4"
  shows "unat (w + 1) = unat w + 1"
proof -
  from assms have "unat w + unat (1 :: 8 word) < 2 ^ LENGTH(8)" by simp
  then have "unat (w + 1) = unat w + unat (1 :: 8 word)" by (simp only: unat_add_lem)
  then show ?thesis by simp
qed

lemma heart_beat_slots_inv:
  assumes "slots_inv s"
  shows "slots_inv (heart_beat s i)"
proof -
  let ?b = "bpm_of (sint (millis_delta i - lastBeat s))"
  from assms have len: "length (rates s) = RATE_SIZE" and spot: "unat (rateSpot s) < RATE_SIZE"
    and vals: "\<forall>r\<in>set (rates s). r = 0 \<or> (20 \<le> uint r \<and> uint r \<le> 254)"
    by (simp_all add: slots_inv_def)
  show ?thesis
  proof (cases "f_lt ?b 255 \<and> f_gt ?b 20")
    case False
    then have "rates (heart_beat s i) = rates s"
      unfolding heart_beat_rates by (rule if_not_P)
    moreover from False have "rateSpot (heart_beat s i) = rateSpot s"
      unfolding heart_beat_rateSpot by (rule if_not_P)
    ultimately show ?thesis
      using assms unfolding slots_inv_def by simp
  next
    case True
    then obtain r where r: "?b = Fin r" "20 < r" "r < 255" by (auto elim: gate_finite)
    let ?v = "byte_cast ?b"
    have v: "20 \<le> uint ?v \<and> uint ?v \<le> 254"
      unfolding r(1) using byte_cast_range[OF r(2,3)] by simp
    have "set ((rates s)[unat (rateSpot s) := ?v]) \<subseteq> insert ?v (set (rates s))"
      by (rule set_update_subset_insert)
    with vals v
    have a: "\<forall>x\<in>set ((rates s)[unat (rateSpot s) := ?v]). x = 0 \<or> (20 \<le> uint x \<and> uint x \<le> 254)"
      by blast
    from True have b: "rates (heart_beat s i) = (rates s)[unat (rateSpot s) := ?v]"
      unfolding heart_beat_rates by (rule if_P)
    from True have n: "rateSpot (heart_beat s i) = (rateSpot s + 1) mod word_of_nat RATE_SIZE"
      unfolding heart_beat_rateSpot by (rule if_P)
    have c: "unat (rateSpot (heart_beat s i)) < RATE_SIZE"
      unfolding n unat_next_spot by (simp add: RATE_SIZE_def)
    from a b c len show ?thesis
      unfolding slots_inv_def by simp
  qed
qed

lemma read_max30105_inv:
  "avg_inv s \<Longrightarrow> avg_inv (fst (read_max30105 s i))"
  "slots_inv s \<Longrightarrow> slots_inv (fst (read_max30105 s i))"
  by (simp_all add: read_max30105_def Let_def heart_beat_avg_inv heart_beat_slots_inv)

lemma advance_inv:
  "avg_inv (advance s i) = avg_inv s"
  "slots_inv (advance s i) = slots_inv s"
  by (simp_all add: avg_inv_def slots_inv_def)

lemma loop_inv:
  assumes "loop s i = Inr (s', ev)"
  shows "avg_inv s \<Longrightarrow> avg_inv s'" and "slots_inv s \<Longrightarrow> slots_inv s'"
proof -
  have s': "s' = (if fires s i then fst (read_max30105 (advance s i) i) else s)"
    using loop_Inr[OF assms] loop_fires_state(1)[OF assms] by (auto split: if_splits)
  show "avg_inv s \<Longrightarrow> avg_inv s'" unfolding s' by (simp add: read_max30105_inv advance_inv)
  show "slots_inv s \<Longrightarrow> slots_inv s'" unfolding s' by (simp add: read_max30105_inv advance_inv)
qed

lemma run_inv:
  assumes "run s is = Inr (s', ev)"
  shows "avg_inv s \<Longrightarrow> avg_inv s'" and "slots_inv s \<Longrightarrow> slots_inv s'"
  using assms
proof (induction "is" arbitrary: s ev)
  case Nil
  { case 1 then show ?case by simp }
  { case 2 then show ?case by simp }
next
  case (Cons i "is")
  { case 1
    from 1(2) obtain s1 e1 e2 where "loop s i = Inr (s1, e1)" "run s1 is = Inr (s', e2)"
      by (auto split: sum.splits)
    with Cons.IH(1)[of s1 e2] loop_inv(1)[of s i s1 e1] 1(1) show ?case by simp }
  { case 2
    from 2(2) obtain s1 e1 e2 where "loop s i = Inr (s1, e1)" "run s1 is = Inr (s', e2)"
      by (auto split: sum.splits)
    with Cons.IH(2)[of s1 e2] loop_inv(2)[of s i s1 e1] 2(1) show ?case by simp }
qed

lemma setup_main_state:
  assumes "setup_main b = Inr (s, ev)"
  shows "s = booted (htu_begin b) (max_begin b) (accel_begin b)"
  using assms
  by (auto simp: setup_main_def init_sensors_def booted_def Let_def split: option.splits)

lemma booted_inv: "avg_inv (booted h m a)" "slots_inv (booted h m a)"
  by (simp_all add: avg_inv_def slots_inv_def booted_def initial_def RATE_SIZE_def numeral_nat)

lemma session_Inr:
  assumes "session b is = Inr (s, ev)"
  obtains e0 e1 where "setup_main b = Inr (booted (htu_begin b) (max_begin b) (accel_begin b), e0)"
    and "run (booted (htu_begin b) (max_begin b) (accel_begin b)) is = Inr (s, e1)"
    and "ev = e0 @ e1"
proof -
  from assms obtain s0 e0 e1 where a: "setup_main b = Inr (s0, e0)" "run s0 is = Inr (s, e1)" "ev = e0 @ e1"
    by (auto simp: session_def split: sum.splits)
  with setup_main_state[OF a(1)] that show thesis by simp
qed

lemma sum_real_uint:
  "(\<Sum>r\<leftarrow>rs. real_of_int (uint r)) = real_of_int (\<Sum>r\<leftarrow>rs. uint (r::8 word))"
  by (induction rs) simp_all

lemma floor_mean: "\<lfloor>real_of_int a / 4\<rfloor> = a div 4"
  using floor_divide_of_int_eq[of a 4] by simp

subsection \<open>Concrete sessions\<close>

text \<open>
  The facts that evaluate a session on concrete inputs, and two sessions after a boot
  where only the optical sensor was found: one beat 2900 ms after boot, and four beats at
  2001, 4002, 6003 and 8103 ms.
\<close>

lemma replicate_4: "replicate 4 x = [x, x, x, x]"
  by (simp add: numeral_nat)

lemmas run_defs = replicate_4
  session_def setup_main_def setup_wifi_def wifi_poll.simps init_sensors_def reconnect_ok
  reconnect_fail reconnect_up loop_def fires_def tick_def advance_def announce_def
  read_htu21d_def read_max30105_def read_mma8452q_def system_status_def resumen_def
  finger_status_def heart_beat_def bpm_of_def avg_loop.simps RATE_SIZE_def Let_def
  signed_modulo_int_def signed_divide_int_def
  boot_with_def booted_def initial_def sample_input_def beat_at_def at_once_def never_def
  third_try_def status_pub_def

lemma one_slow_beat:
  "\<exists>ev. session (boot_with False True False) [beat_at 2900] =
          Inr (initial\<lparr>max30102_ok := True, rates := [20, 0, 0, 0], rateSpot := 1,
                       lastBeat := 2900, beatsPerMinute := Fin (600 / 29), beatAvg := 5,
                       lastMsg := 2900, contador := 1\<rparr>, ev)"
  by (simp add: run_defs)

lemma four_beats:
  "\<exists>ev. session (boot_with False True False)
           [beat_at 2001, beat_at 4002, beat_at 6003, beat_at 8103] =
          Inr (initial\<lparr>max30102_ok := True, rates := [29, 29, 29, 28], rateSpot := 0,
                       lastBeat := 8103, beatsPerMinute := Fin (200 / 7), beatAvg := 28,
                       lastMsg := 8103, contador := 4\<rparr>, ev)
        \<and> pubs_on ''sensores/bpm_avg'' ev = [[OfInt 7], [OfInt 14], [OfInt 21], [OfInt 28]]"
  by (simp add: run_defs)

subsection \<open>Events that concern a sensor\<close>

lemma wifi_poll_delays: "set (wifi_poll st k ev) \<subseteq> set ev \<union> {Delay 500}"
proof (induction st k ev rule: wifi_poll.induct)
  case (1 st intentos ev)
  show ?case
  proof (cases "\<not> st intentos \<and> intentos < 30")
    case True
    with 1 show ?thesis by (subst wifi_poll.simps) auto
  next
    case False
    then show ?thesis by (subst wifi_poll.simps) auto
  qed
qed

lemma wifi_poll_length: "length (wifi_poll st k ev) \<le> length ev + (30 - k)"
proof (induction st k ev rule: wifi_poll.induct)
  case (1 st intentos ev)
  show ?case
  proof (cases "\<not> st intentos \<and> intentos < 30")
    case True
    with 1 show ?thesis by (subst wifi_poll.simps) auto
  next
    case False
    then show ?thesis by (subst wifi_poll.simps) auto
  qed
qed

lemma filter_none: "(\<And>e. e \<in> set ev \<Longrightarrow> \<not> P e) \<Longrightarrow> filter P ev = []"
  by (induction ev) auto

lemma concerns_reconnect:
  assumes "set ev0 \<subseteq> {Delay 5000, status_pub}"
  shows "filter (concerns x) ev0 = []"
proof (rule filter_none)
  fix e assume "e \<in> set ev0"
  with assms have "e = Delay 5000 \<or> e = status_pub" by auto
  then show "\<not> concerns x e" by (cases x) (auto simp: status_pub_def)
qed

lemma concerns_setup:
  assumes "setup_main b = Inr (s, ev)" and "\<not> begin_ok b x"
  shows "filter (concerns x) ev = [Begin x]"
proof -
  from assms(1) obtain k ev0 where
    r: "reconnect (boot_connect b) False 0 (setup_wifi (wifi_status b)) = Some (k, ev0)"
    and ev: "ev = ev0 @ [Pub ''sensores/info'' [Lit ''Inicializando sensores en ESP32-C3''],
                         Pub ''sensores/config'' [Lit ''I2C: SDA=GPIO6, SCL=GPIO7, 100kHz'']]
                    @ snd (init_sensors b initial)"
    by (auto simp: setup_main_def Let_def split: option.splits prod.splits)
  have "filter (concerns x) ev0 = []"
  proof (rule filter_none)
    fix e assume "e \<in> set ev0"
    with reconnect_events[OF r] wifi_poll_delays[of "wifi_status b" 0 "[Delay 10]"]
    have "e = Delay 10 \<or> e = Delay 500 \<or> e = Delay 5000 \<or> e = status_pub"
      by (auto simp: setup_wifi_def)
    then show "\<not> concerns x e" by (cases x) (auto simp: status_pub_def)
  qed
  with assms(2) show ?thesis
    unfolding ev by (cases x) (simp_all add: init_sensors_def Let_def)
qed

lemma concerns_parts:
  assumes "\<not> sensor_ok s x"
  shows "filter (concerns x) (announce s) = []"
    and "filter (concerns x) (read_htu21d s i) = []"
    and "filter (concerns x) (snd (read_max30105 s i)) = []"
    and "filter (concerns x) (read_mma8452q s i) = []"
    and "filter (concerns x) (system_status s i) = []"
  using assms
  by (cases x; simp add: announce_def read_htu21d_def read_max30105_def read_mma8452q_def
      system_status_def Let_def)+

lemma sensor_ok_advance [simp]: "sensor_ok (advance s i) x = sensor_ok s x"
  by (cases x) simp_all

lemma sensor_ok_read_max [simp]: "sensor_ok (fst (read_max30105 s i)) x = sensor_ok s x"
  by (cases x) simp_all

lemma concerns_loop:
  assumes "loop s i = Inr (s', ev)" and "\<not> sensor_ok s x"
  shows "\<not> sensor_ok s' x" and "filter (concerns x) ev = []"
proof -
  from loop_Inr[OF assms(1)] obtain ev0 where
    ev0: "set ev0 \<subseteq> {Delay 5000, status_pub}" and
    c: "if fires s i then \<exists>evs. tick s i = Inr (s', evs) \<and> ev = ev0 @ evs
        else s' = s \<and> ev = ev0"
    by blast
  have a: "\<not> sensor_ok (advance s i) x" using assms(2) by simp
  show "\<not> sensor_ok s' x"
  proof (cases "fires s i")
    case True
    with loop_fires_state(1)[OF assms(1)] assms(2) show ?thesis by simp
  next
    case False
    with c assms(2) show ?thesis by simp
  qed
  show "filter (concerns x) ev = []"
  proof (cases "fires s i")
    case True
    with c obtain evs where t: "tick s i = Inr (s', evs)" and e: "ev = ev0 @ evs" by auto
    show ?thesis
      unfolding e tick_Inr(2)[OF t]
      by (simp add: concerns_reconnect[OF ev0] concerns_parts[OF a])
  next
    case False
    with c show ?thesis by (simp add: concerns_reconnect[OF ev0])
  qed
qed

lemma concerns_run:
  assumes "run s is = Inr (s', ev)" and "\<not> sensor_ok s x"
  shows "\<not> sensor_ok s' x \<and> filter (concerns x) ev = []"
  using assms
proof (induction "is" arbitrary: s ev)
  case Nil
  then show ?case by simp
next
  case (Cons i "is")
  from Cons.prems(1) obtain s1 e1 e2 where
    l: "loop s i = Inr (s1, e1)" and r: "run s1 is = Inr (s', e2)" and e: "ev = e1 @ e2"
    by (auto split: sum.splits)
  from concerns_loop[OF l Cons.prems(2)] Cons.IH[OF r] e show ?case by simp
qed

subsection \<open>The tick counter\<close>

lemma loop_contador:
  assumes "loop s i = Inr (s', ev)"
  shows "contador s' = (if fires s i then contador s + 1 else contador s)"
    and "pubs_on ''sensores/contador'' ev = (if fires s i then [[OfInt (contador s + 1)]] else [])"
proof -
  from loop_Inr[OF assms] obtain ev0 where
    ev0: "set ev0 \<subseteq> {Delay 5000, status_pub}" and
    c: "if fires s i then \<exists>evs. tick s i = Inr (s', evs) \<and> ev = ev0 @ evs
        else s' = s \<and> ev = ev0"
    by blast
  show "contador s' = (if fires s i then contador s + 1 else contador s)"
    using c loop_fires_state(1)[OF assms] by (auto split: if_splits)
  have z: "pubs_on ''sensores/contador'' ev0 = []"
    by (rule pubs_on_reconnect[OF ev0]) simp
  show "pubs_on ''sensores/contador'' ev = (if fires s i then [[OfInt (contador s + 1)]] else [])"
  proof (cases "fires s i")
    case True
    from loop_fires_pubs[OF assms True, of "''sensores/contador''"] True show ?thesis
      by (simp add: pubs_on_other announce_def)
  next
    case False
    with c z show ?thesis by simp
  qed
qed

lemma run_contador:
  assumes "run s is = Inr (s', ev)"
  shows "\<exists>n. contador s' = contador s + int n
           \<and> pubs_on ''sensores/contador'' ev =
               map (\<lambda>j. [OfInt (contador s + 1 + int j)]) [0..<n]"
  using assms
proof (induction "is" arbitrary: s ev)
  case Nil
  then show ?case by simp
next
  case (Cons i "is")
  from Cons.prems obtain s1 e1 e2 where
    l: "loop s i = Inr (s1, e1)" and r: "run s1 is = Inr (s', e2)" and e: "ev = e1 @ e2"
    by (auto split: sum.splits)
  from Cons.IH[OF r] obtain n where
    n: "contador s' = contador s1 + int n"
       "pubs_on ''sensores/contador'' e2 = map (\<lambda>j. [OfInt (contador s1 + 1 + int j)]) [0..<n]"
    by blast
  show ?case
  proof (cases "fires s i")
    case True
    with loop_contador[OF l] have c: "contador s1 = contador s + 1"
      and p: "pubs_on ''sensores/contador'' e1 = [[OfInt (contador s + 1)]]" by simp_all
    have "pubs_on ''sensores/contador'' ev =
            map (\<lambda>j. [OfInt (contador s + 1 + int j)]) [0..<Suc n]"
      unfolding e by (simp add: p n(2) c map_upt_Suc add.assoc del: upt_Suc)
    moreover have "contador s' = contador s + int (Suc n)" using n(1) c by simp
    ultimately show ?thesis by blast
  next
    case False
    with loop_contador[OF l] have c: "contador s1 = contador s"
      and p: "pubs_on ''sensores/contador'' e1 = []" by simp_all
    with n e show ?thesis by auto
  qed
qed

subsection \<open>When \<^verbatim>\<open>reconnect\<close> returns\<close>

lemma tick_not_blocked: "tick s i \<noteq> Inl ReconnectNeverReturns"
  by (simp add: tick_def Let_def split: prod.splits)

lemma first_success:
  assumes "\<exists>k. conn k"
  obtains n :: nat where "conn n" and "\<forall>j<n. \<not> conn j"
proof -
  let ?n = "LEAST k. conn k"
  from assms have "conn ?n" by (auto intro: LeastI)
  moreover have "\<forall>j<?n. \<not> conn j" by (auto dest: not_less_Least)
  ultimately show thesis by (rule that)
qed

lemma reconnect_first:
  assumes "conn n" and "\<forall>j<n. \<not> conn j"
  shows "reconnect conn False 0 ev = Some (Suc n, ev @ replicate n (Delay 5000) @ [status_pub])"
  using reconnect_after[of conn 0 n ev] assms by simp

lemma loop_recovers:
  assumes "\<not> link_up i" and "connect_results i n" and "\<forall>j<n. \<not> connect_results i j"
  shows "loop s i =
           (if fires s i then
              (case tick s i of
                 Inl e \<Rightarrow> Inl e
               | Inr (s', evs) \<Rightarrow> Inr (s', (replicate n (Delay 5000) @ [status_pub]) @ evs))
            else Inr (s, replicate n (Delay 5000) @ [status_pub]))"
  using assms(1) by (simp add: loop_def reconnect_first[OF assms(2,3)])

lemma loop_blocked_iff:
  "(loop s i = Inl ReconnectNeverReturns) = (\<not> link_up i \<and> (\<forall>k. \<not> connect_results i k))"
proof (cases "link_up i")
  case True
  then show ?thesis
    using tick_not_blocked[of s i] by (auto simp: loop_def split: sum.splits)
next
  case down: False
  show ?thesis
  proof (cases "\<exists>k. connect_results i k")
    case True
    then obtain n where n: "connect_results i n" "\<forall>j<n. \<not> connect_results i j"
      by (rule first_success)
    from True down show ?thesis
      using tick_not_blocked[of s i]
      by (auto simp: loop_recovers[OF down n] split: sum.splits)
  next
    case False
    then have "reconnect (connect_results i) False 0 [] = None"
      by (intro reconnect_never) simp
    with False down show ?thesis by (simp add: loop_def)
  qed
qed

lemma setup_blocked_iff:
  "(setup_main b = Inl ReconnectNeverReturns) = (\<forall>k. \<not> boot_connect b k)"
proof (cases "\<exists>k. boot_connect b k")
  case True
  then obtain n where n: "boot_connect b n" "\<forall>j<n. \<not> boot_connect b j"
    by (rule first_success)
  from True show ?thesis
    by (auto simp: setup_main_def reconnect_first[OF n] Let_def split: prod.splits)
next
  case False
  then have "reconnect (boot_connect b) False 0 (setup_wifi (wifi_status b)) = None"
    by (intro reconnect_never) simp
  with False show ?thesis by (simp add: setup_main_def)
qed

lemma setup_wifi_bounded: "length (setup_wifi st) \<le> 31"
  using wifi_poll_length[of st 0 "[Delay 10]"] by (simp add: setup_wifi_def)

subsection \<open>Calls that have not returned yet\<close>

lemma reconnect_within_Inr:
  "reconnect_within conn c k ev n = Inr r \<Longrightarrow> reconnect conn c k ev = Some r"
proof (induction n arbitrary: c k ev)
  case 0
  then show ?case by (cases c) (auto simp: reconnect_up)
next
  case (Suc n)
  show ?case
  proof (cases c)
    case True
    with Suc.prems show ?thesis by (auto simp: reconnect_up)
  next
    case nc: False
    show ?thesis
    proof (cases "conn k")
      case True
      with nc Suc.prems
      have "reconnect_within conn True (Suc k) (ev @ [status_pub]) n = Inr r" by simp
      from Suc.IH[OF this] nc True show ?thesis
        by (subst reconnect.simps) simp
    next
      case False
      with nc Suc.prems
      have "reconnect_within conn False (Suc k) (ev @ [Delay 5000]) n = Inr r" by simp
      from Suc.IH[OF this] nc False show ?thesis
        by (simp add: reconnect_fail)
    qed
  qed
qed

lemma reconnect_within_never:
  "\<forall>j\<ge>k. \<not> conn j \<Longrightarrow>
   reconnect_within conn False k ev n = Inl (ev @ replicate n (Delay 5000))"
proof (induction n arbitrary: k ev)
  case 0
  then show ?case by simp
next
  case (Suc n)
  from Suc.prems have a: "\<not> conn k" and b: "\<forall>j\<ge>Suc k. \<not> conn j" by auto
  from a Suc.IH[OF b, of "ev @ [Delay 5000]"] show ?case
    by (simp add: replicate_app_Cons_same)
qed

lemma loop_within_Inr:
  assumes "loop_within s i n = Inr r"
  shows "r = loop s i"
proof (cases "link_up i")
  case True
  with assms show ?thesis by (auto simp: loop_within_def loop_def)
next
  case False
  with assms obtain k ev where w: "reconnect_within (connect_results i) False 0 [] n = Inr (k, ev)"
    by (auto simp: loop_within_def split: sum.splits)
  from reconnect_within_Inr[OF w] w False assms show ?thesis
    by (auto simp: loop_within_def loop_def)
qed

lemma setup_within_Inr:
  assumes "setup_within b n = Inr r"
  shows "r = setup_main b"
proof -
  from assms obtain k ev where
    w: "reconnect_within (boot_connect b) False 0 (setup_wifi (wifi_status b)) n = Inr (k, ev)"
    by (auto simp: setup_within_def split: sum.splits)
  from reconnect_within_Inr[OF w] w assms show ?thesis
    by (auto simp: setup_within_def setup_main_def Let_def split: prod.splits)
qed

lemma run_within_Inr:
  "run_within s is n = Inr r \<Longrightarrow> r = run s is"
proof (induction "is" arbitrary: s r)
  case Nil
  then show ?case by auto
next
  case (Cons i "is")
  from Cons.prems obtain r1 where l: "loop_within s i n = Inr r1"
    by (auto split: sum.splits)
  from loop_within_Inr[OF l] have r1: "r1 = loop s i" .
  show ?case
  proof (cases "loop s i")
    case (Inl e)
    with l r1 Cons.prems show ?thesis by auto
  next
    case (Inr p)
    obtain s1 e1 where p: "p = (s1, e1)" by (cases p)
    with Inr l r1 Cons.prems obtain r2 where w: "run_within s1 is n = Inr r2"
      by (auto split: sum.splits)
    from Cons.IH[OF w] have "r2 = run s1 is" .
    with w Inr p l r1 Cons.prems show ?thesis
      by (auto split: sum.splits)
  qed
qed

lemma session_within_Inr:
  assumes "session_within b is n = Inr r"
  shows "r = session b is"
proof -
  from assms obtain r1 where w: "setup_within b n = Inr r1"
    by (auto simp: session_within_def split: sum.splits)
  from setup_within_Inr[OF w] have r1: "r1 = setup_main b" .
  show ?thesis
  proof (cases "setup_main b")
    case (Inl e)
    with w r1 assms show ?thesis by (auto simp: session_within_def session_def)
  next
    case (Inr p)
    obtain s1 e1 where p: "p = (s1, e1)" by (cases p)
    with Inr w r1 assms obtain r2 where v: "run_within s1 is n = Inr r2"
      by (auto simp: session_within_def split: sum.splits)
    from run_within_Inr[OF v] have "r2 = run s1 is" .
    with v Inr p w r1 assms show ?thesis
      by (auto simp: session_within_def session_def split: sum.splits)
  qed
qed

lemma loop_within_blocked:
  assumes "\<not> link_up i" and "\<forall>k. \<not> connect_results i k"
  shows "loop_within s i n = Inl (replicate n (Delay 5000))"
  using assms reconnect_within_never[of 0 "connect_results i" "[]" n]
  by (simp add: loop_within_def)

lemma setup_within_blocked:
  assumes "\<forall>k. \<not> boot_connect b k"
  shows "setup_within b n = Inl (setup_wifi (wifi_status b) @ replicate n (Delay 5000))"
  using assms reconnect_within_never[of 0 "boot_connect b" "setup_wifi (wifi_status b)" n]
  by (simp add: setup_within_def)

lemma session_within_blocked:
  assumes "\<forall>k. \<not> boot_connect b k"
  shows "session_within b is n = Inl (setup_wifi (wifi_status b) @ replicate n (Delay 5000))"
  by (simp add: session_within_def setup_within_blocked[OF assms])

lemma loop_within_up:
  assumes "link_up i"
  shows "loop_within s i n = Inr (loop s i)"
  using assms by (simp add: loop_within_def loop_def)

lemma run_within_blocked:
  assumes "run s pre = Inr (s1, ev1)" and "\<forall>j\<in>set pre. link_up j"
    and "\<not> link_up i" and "\<forall>k. \<not> connect_results i k"
  shows "run_within s (pre @ i # post) n = Inl (ev1 @ replicate n (Delay 5000))"
  using assms(1,2)
proof (induction pre arbitrary: s ev1)
  case Nil
  then show ?case by (simp add: loop_within_blocked[OF assms(3,4)])
next
  case (Cons j pre)
  from Cons.prems(1) obtain s2 e2 e3 where
    l: "loop s j = Inr (s2, e2)" and r: "run s2 pre = Inr (s1, e3)" and e: "ev1 = e2 @ e3"
    by (auto split: sum.splits)
  from Cons.prems(2) have u: "link_up j" and v: "\<forall>j\<in>set pre. link_up j" by simp_all
  from Cons.IH[OF r v] l e show ?case
    by (simp add: loop_within_up[OF u])
qed

lemma setup_wifi_delays: "set (setup_wifi st) \<subseteq> {Delay 10, Delay 500}"
  using wifi_poll_delays[of st 0 "[Delay 10]"] by (auto simp: setup_wifi_def)

subsection \<open>A long session\<close>

lemma tick_returns: "contador s \<noteq> 2147483647 \<Longrightarrow> \<exists>s' ev. tick s i = Inr (s', ev)"
  by (simp add: tick_def Let_def split: prod.splits)

lemma tick_overflow: "contador s = 2147483647 \<Longrightarrow> tick s i = Inl SignedOverflow"
  by (simp add: tick_def)

lemma reconnect_returns:
  assumes "c \<or> (\<exists>k. conn k)"
  shows "\<exists>r. reconnect conn c 0 [] = Some r"
proof (cases c)
  case True
  then show ?thesis by (simp add: reconnect_up)
next
  case False
  with assms have "\<exists>k. conn k" by simp
  then obtain n where "conn n" "\<forall>j<n. \<not> conn j" by (rule first_success)
  from reconnect_first[OF this] False show ?thesis by simp
qed

lemma loop_returns_general:
  assumes "link_up i \<or> (\<exists>k. connect_results i k)" and "contador s \<noteq> 2147483647"
  shows "\<exists>s' ev. loop s i = Inr (s', ev)"
proof -
  from reconnect_returns[OF assms(1)] obtain k ev where
    r: "reconnect (connect_results i) (link_up i) 0 [] = Some (k, ev)" by auto
  from tick_returns[OF assms(2), of i] obtain s' evs where t: "tick s i = Inr (s', evs)"
    by blast
  show ?thesis
  proof (cases "link_up i")
    case True
    with t show ?thesis by (simp add: loop_def)
  next
    case False
    with r t show ?thesis by (simp add: loop_def)
  qed
qed

lemma loop_overflow:
  assumes "link_up i \<or> (\<exists>k. connect_results i k)" and "fires s i"
    and "contador s = 2147483647"
  shows "loop s i = Inl SignedOverflow"
proof -
  from reconnect_returns[OF assms(1)] obtain k ev where
    r: "reconnect (connect_results i) (link_up i) 0 [] = Some (k, ev)" by auto
  show ?thesis
  proof (cases "link_up i")
    case True
    with assms(2) tick_overflow[OF assms(3)] show ?thesis by (simp add: loop_def)
  next
    case False
    with r assms(2) tick_overflow[OF assms(3)] show ?thesis by (simp add: loop_def)
  qed
qed

lemma call_gap: "(word_of_nat (2001 * Suc n) :: 32 word) - word_of_nat (2001 * n) = 2001"
  by simp

lemma fires_call: "fires (after_calls n) (call_at (Suc n))"
proof -
  have a: "now (call_at (Suc n)) = word_of_nat (2001 * Suc n)"
    by (simp add: call_at_def)
  have b: "lastMsg (after_calls n) = word_of_nat (2001 * n)"
    by (simp add: after_calls_def)
  show ?thesis
    unfolding fires_def a b call_gap by simp
qed

lemma after_calls_0: "after_calls 0 = booted False False False"
  by (simp add: after_calls_def booted_def initial_def)

lemma loop_call:
  assumes "n < 2147483647"
  shows "\<exists>ev. loop (after_calls n) (call_at (Suc n)) = Inr (after_calls (Suc n), ev)"
proof -
  have u: "link_up (call_at (Suc n))" by (simp add: call_at_def sample_input_def)
  have c: "contador (after_calls n) \<noteq> 2147483647"
    using assms by (simp add: after_calls_def)
  have t: "tick (after_calls n) (call_at (Suc n)) =
             Inr (after_calls (Suc n),
                  announce (advance (after_calls n) (call_at (Suc n)))
                  @ system_status (advance (after_calls n) (call_at (Suc n))) (call_at (Suc n)))"
    using c
    by (simp add: tick_def Let_def read_htu21d_def read_max30105_def read_mma8452q_def
        advance_def after_calls_def booted_def call_at_def algebra_simps)
  from u fires_call[of n] t show ?thesis by (simp add: loop_def)
qed

lemma run_calls:
  "k + n \<le> 2147483647 \<Longrightarrow>
   \<exists>ev. run (after_calls k) (calls k n) = Inr (after_calls (k + n), ev)"
proof (induction n arbitrary: k)
  case 0
  then show ?case by simp
next
  case (Suc n)
  then have "k < 2147483647" and "Suc k + n \<le> 2147483647" by simp_all
  from loop_call[OF this(1)] Suc.IH[OF this(2)] show ?case by auto
qed

section \<open>The claims\<close>

subsection \<open>Finger detection\<close>

text \<open>
  Claim C4. On every tick on which the optical sensor is healthy, the firmware publishes
  the finger status once, and it is \<^verbatim>\<open>no_detectado\<close> exactly when the infrared value read
  on that tick is below 50000, and \<^verbatim>\<open>detectado\<close> otherwise.
\<close>

theorem finger_threshold:
  assumes "loop s i = Inr (s', ev)" and "fires s i" and "max30102_ok s"
  shows "pubs_on ''sensores/finger_status'' ev =
           [[Lit (if irValue i < 50000 then ''no_detectado'' else ''detectado'')]]"
  using assms(3)
  by (simp add: loop_fires_pubs[OF assms(1,2)] announce_def read_htu21d_def read_max30105_def
      read_mma8452q_def system_status_def finger_status_def Let_def)

theorem finger_threshold_witness:
  "\<exists>s' ev. loop (booted False True False) (sample_input\<lparr>irValue := 49999\<rparr>) = Inr (s', ev)
     \<and> fires (booted False True False) (sample_input\<lparr>irValue := 49999\<rparr>)
     \<and> max30102_ok (booted False True False)
     \<and> pubs_on ''sensores/finger_status'' ev = [[Lit ''no_detectado'']]"
proof -
  let ?s = "booted False True False" and ?i = "sample_input\<lparr>irValue := 49999\<rparr>"
  obtain s' ev where h: "loop ?s ?i = Inr (s', ev)"
    using loop_returns[of ?i ?s] by (auto simp: booted_def initial_def sample_input_def)
  have f: "fires ?s ?i"
    by (simp add: fires_def booted_def initial_def sample_input_def)
  have m: "max30102_ok ?s"
    by (simp add: booted_def)
  from finger_threshold[OF h f m]
  have "pubs_on ''sensores/finger_status'' ev = [[Lit ''no_detectado'']]"
    by (simp add: sample_input_def)
  with h f m show ?thesis by blast
qed

subsection \<open>Orientation\<close>

text \<open>
  Claim C5. On a tick that reads an acceleration \<open>(x, y, z)\<close>, one orientation is
  published. It is \<^verbatim>\<open>boca_arriba\<close> exactly when \<open>|z| > |x|\<close>, \<open>|z| > |y|\<close> and
  \<open>z > 0.5\<close>; it is \<^verbatim>\<open>boca_abajo\<close> exactly when \<open>|z| > |x|\<close>, \<open>|z| > |y|\<close> and
  \<open>z < -0.5\<close>; it is \<^verbatim>\<open>indefinida\<close> exactly when neither holds. Since a single label
  is published, face up and face down are never reported together.
\<close>

theorem orientation_rule:
  assumes "loop s i = Inr (s', ev)" and "fires s i" and "accel_ok s" and "available i"
  shows "\<exists>l. pubs_on ''sensores/orientacion'' ev = [[Lit l]]
     \<and> (l = ''boca_arriba'' \<longleftrightarrow>
          \<bar>acc_z i\<bar> > \<bar>acc_x i\<bar> \<and> \<bar>acc_z i\<bar> > \<bar>acc_y i\<bar> \<and> acc_z i > 0.5)
     \<and> (l = ''boca_abajo'' \<longleftrightarrow>
          \<bar>acc_z i\<bar> > \<bar>acc_x i\<bar> \<and> \<bar>acc_z i\<bar> > \<bar>acc_y i\<bar> \<and> acc_z i < - 0.5)
     \<and> (l = ''indefinida'' \<longleftrightarrow>
          \<not> (\<bar>acc_z i\<bar> > \<bar>acc_x i\<bar> \<and> \<bar>acc_z i\<bar> > \<bar>acc_y i\<bar> \<and> acc_z i > 0.5)
          \<and> \<not> (\<bar>acc_z i\<bar> > \<bar>acc_x i\<bar> \<and> \<bar>acc_z i\<bar> > \<bar>acc_y i\<bar> \<and> acc_z i < - 0.5))"
proof -
  have p: "pubs_on ''sensores/orientacion'' ev =
             [[Lit (orientacion (acc_x i) (acc_y i) (acc_z i))]]"
    using assms(3,4)
    by (simp add: loop_fires_pubs[OF assms(1,2)] announce_def read_htu21d_def
        read_max30105_def read_mma8452q_def system_status_def Let_def)
  show ?thesis
    unfolding p by (rule exI[of _ "orientacion (acc_x i) (acc_y i) (acc_z i)"])
      (auto simp: orientacion_def)
qed

theorem orientation_rule_witness:
  "\<exists>s' ev. loop (booted False False True) sample_input = Inr (s', ev)
     \<and> fires (booted False False True) sample_input
     \<and> accel_ok (booted False False True) \<and> available sample_input
     \<and> pubs_on ''sensores/orientacion'' ev = [[Lit ''boca_arriba'']]"
proof -
  let ?s = "booted False False True" and ?i = "sample_input"
  obtain s' ev where h: "loop ?s ?i = Inr (s', ev)"
    using loop_returns[of ?i ?s] by (auto simp: booted_def initial_def sample_input_def)
  have f: "fires ?s ?i"
    by (simp add: fires_def booted_def initial_def sample_input_def)
  have m: "accel_ok ?s" "available ?i"
    by (simp_all add: booted_def sample_input_def)
  from orientation_rule[OF h f m]
  have "pubs_on ''sensores/orientacion'' ev = [[Lit ''boca_arriba'']]"
    by (auto simp: sample_input_def)
  with h f m show ?thesis by blast
qed

subsection \<open>When orientation and movement are published\<close>

text \<open>
  Claim C9, as amended. The claim says that \<^verbatim>\<open>sensores/orientacion\<close> and
  \<^verbatim>\<open>sensores/movimiento\<close> are published on every tick, whatever the health of the
  accelerometer and whether it has data. The code publishes both inside
  \<^verbatim>\<open>if (accel_ok) { if (accel.available()) { ... } }\<close>: each is published once on a tick
  where the accelerometer is healthy and has new data, and not at all on any other tick.
\<close>

theorem motion_topics_when_data:
  assumes "loop s i = Inr (s', ev)" and "fires s i"
  shows "pubs_on ''sensores/orientacion'' ev =
           (if accel_ok s \<and> available i
            then [[Lit (orientacion (acc_x i) (acc_y i) (acc_z i))]] else [])
     \<and> pubs_on ''sensores/movimiento'' ev =
           (if accel_ok s \<and> available i
            then [[Lit (if magnitud (acc_x i) (acc_y i) (acc_z i) > 1.5 then ''SI'' else ''NO'')]]
            else [])"
  by (simp add: loop_fires_pubs[OF assms(1,2)] announce_def read_htu21d_def
      read_max30105_def read_mma8452q_def system_status_def Let_def)

text \<open>
  Two ticks without them: one after a boot where the accelerometer was not found, one
  where it is healthy and has no new data (the code publishes an error instead).
\<close>

theorem motion_topics_counterexample:
  "(\<exists>s' ev. loop (booted True True False) sample_input = Inr (s', ev)
      \<and> fires (booted True True False) sample_input
      \<and> topics ev =
          [''sensores/contador'', ''sensores/resumen'', ''sensores/temperatura'',
           ''sensores/humedad'', ''sensores/ir_value'', ''sensores/bpm'', ''sensores/bpm_avg'',
           ''sensores/finger_status'', ''sensores/heart_data'', ''sistema/wifi_ip'',
           ''sistema/wifi_status'', ''sistema/uptime'']
      \<and> pubs_on ''sensores/orientacion'' ev = [] \<and> pubs_on ''sensores/movimiento'' ev = [])
   \<and> (\<exists>s' ev. loop (booted False False True) (sample_input\<lparr>available := False\<rparr>) = Inr (s', ev)
      \<and> fires (booted False False True) (sample_input\<lparr>available := False\<rparr>)
      \<and> topics ev =
          [''sensores/contador'', ''sensores/resumen'', ''sensores/error'', ''sistema/wifi_ip'',
           ''sistema/wifi_status'', ''sistema/uptime'']
      \<and> pubs_on ''sensores/orientacion'' ev = [] \<and> pubs_on ''sensores/movimiento'' ev = [])"
  by (simp add: loop_def fires_def tick_def advance_def announce_def read_htu21d_def
      read_max30105_def read_mma8452q_def system_status_def resumen_def finger_status_def
      booted_def initial_def sample_input_def RATE_SIZE_def Let_def signed_modulo_int_def)

theorem motion_topics_when_data_witness:
  "\<exists>s' ev. loop (booted False False True) sample_input = Inr (s', ev)
     \<and> fires (booted False False True) sample_input
     \<and> pubs_on ''sensores/orientacion'' ev = [[Lit ''boca_arriba'']]
     \<and> pubs_on ''sensores/movimiento'' ev = [[Lit ''NO'']]"
proof -
  let ?s = "booted False False True" and ?i = "sample_input"
  obtain s' ev where h: "loop ?s ?i = Inr (s', ev)"
    using loop_returns[of ?i ?s] by (auto simp: booted_def initial_def sample_input_def)
  have f: "fires ?s ?i"
    by (simp add: fires_def booted_def initial_def sample_input_def)
  from motion_topics_when_data[OF h f]
  have "pubs_on ''sensores/orientacion'' ev = [[Lit ''boca_arriba'']]"
    and "pubs_on ''sensores/movimiento'' ev = [[Lit ''NO'']]"
    by (simp_all add: booted_def sample_input_def orientacion_def magnitud_def)
  with h f show ?thesis by blast
qed

subsection \<open>Axis values out of range\<close>

text \<open>
  Claim C7, as amended. The claim says that an axis value outside \<open>[-4, 4]\<close> appears
  in no payload published on that tick. The code tests the range only before the
  publication on the axis's own topic; the magnitude and the combined object
  \<^verbatim>\<open>sensores/accel_datos\<close> are built from the three values as read. So: on a tick
  that reads an acceleration, each axis is published on its own topic exactly when it lies
  in \<open>[-4, 4]\<close>, \<^verbatim>\<open>sensores/accel_datos\<close> carries the three values whatever their
  range, and the accelerometer stays healthy.
\<close>

theorem axis_gate:
  assumes "loop s i = Inr (s', ev)" and "fires s i" and "accel_ok s" and "available i"
  shows \<open>pubs_on ''sensores/accel_x'' ev =
           (if - 4 \<le> acc_x i \<and> acc_x i \<le> 4 then [[OfFloat (Fin (acc_x i)) 3]] else [])
     \<and> pubs_on ''sensores/accel_y'' ev =
           (if - 4 \<le> acc_y i \<and> acc_y i \<le> 4 then [[OfFloat (Fin (acc_y i)) 3]] else [])
     \<and> pubs_on ''sensores/accel_z'' ev =
           (if - 4 \<le> acc_z i \<and> acc_z i \<le> 4 then [[OfFloat (Fin (acc_z i)) 3]] else [])
     \<and> pubs_on ''sensores/accel_datos'' ev =
           [[Lit ''{"x":'', OfFloat (Fin (acc_x i)) 3,
             Lit '',"y":'', OfFloat (Fin (acc_y i)) 3,
             Lit '',"z":'', OfFloat (Fin (acc_z i)) 3,
             Lit '',"mag":'', OfFloat (Fin (magnitud (acc_x i) (acc_y i) (acc_z i))) 3,
             Lit ''}'']]
     \<and> accel_ok s'\<close>
proof -
  have "accel_ok s'"
    using assms(3) by (simp add: loop_fires_state(1)[OF assms(1,2)])
  moreover have "pubs_on ''sensores/accel_x'' ev =
           (if - 4 \<le> acc_x i \<and> acc_x i \<le> 4 then [[OfFloat (Fin (acc_x i)) 3]] else [])"
    using assms(3,4)
    by (simp add: loop_fires_pubs[OF assms(1,2)] pubs_on_other read_mma8452q_def Let_def)
  moreover have "pubs_on ''sensores/accel_y'' ev =
           (if - 4 \<le> acc_y i \<and> acc_y i \<le> 4 then [[OfFloat (Fin (acc_y i)) 3]] else [])"
    using assms(3,4)
    by (simp add: loop_fires_pubs[OF assms(1,2)] pubs_on_other read_mma8452q_def Let_def)
  moreover have "pubs_on ''sensores/accel_z'' ev =
           (if - 4 \<le> acc_z i \<and> acc_z i \<le> 4 then [[OfFloat (Fin (acc_z i)) 3]] else [])"
    using assms(3,4)
    by (simp add: loop_fires_pubs[OF assms(1,2)] pubs_on_other read_mma8452q_def Let_def)
  moreover have \<open>pubs_on ''sensores/accel_datos'' ev =
           [[Lit ''{"x":'', OfFloat (Fin (acc_x i)) 3,
             Lit '',"y":'', OfFloat (Fin (acc_y i)) 3,
             Lit '',"z":'', OfFloat (Fin (acc_z i)) 3,
             Lit '',"mag":'', OfFloat (Fin (magnitud (acc_x i) (acc_y i) (acc_z i))) 3,
             Lit ''}'']]\<close>
    using assms(3,4)
    by (simp add: loop_fires_pubs[OF assms(1,2)] pubs_on_other read_mma8452q_def Let_def)
  ultimately show ?thesis by simp
qed

theorem axis_gate_witness:
  \<open>\<exists>s' ev. loop (booted False False True) (sample_input\<lparr>acc_x := 5, acc_z := 0\<rparr>) = Inr (s', ev)
     \<and> fires (booted False False True) (sample_input\<lparr>acc_x := 5, acc_z := 0\<rparr>)
     \<and> accel_ok (booted False False True)
     \<and> available (sample_input\<lparr>acc_x := 5, acc_z := 0\<rparr>)
     \<and> pubs_on ''sensores/accel_x'' ev = []
     \<and> pubs_on ''sensores/accel_y'' ev = [[OfFloat (Fin 0) 3]]
     \<and> accel_ok s'\<close>
proof -
  let ?s = "booted False False True" and ?i = "sample_input\<lparr>acc_x := 5, acc_z := 0\<rparr>"
  obtain s' ev where h: "loop ?s ?i = Inr (s', ev)"
    using loop_returns[of ?i ?s] by (auto simp: booted_def initial_def sample_input_def)
  have f: "fires ?s ?i"
    by (simp add: fires_def booted_def initial_def sample_input_def)
  have m: "accel_ok ?s" "available ?i"
    by (simp_all add: booted_def sample_input_def)
  from axis_gate[OF h f m]
  have "pubs_on ''sensores/accel_x'' ev = []"
    and "pubs_on ''sensores/accel_y'' ev = [[OfFloat (Fin 0) 3]]" and "accel_ok s'"
    by (simp_all add: sample_input_def)
  with h f m show ?thesis by blast
qed

text \<open>
  With \<open>x = 5\<close> the value 5 is published inside \<^verbatim>\<open>sensores/accel_datos\<close>, and it
  makes the magnitude 5 and the movement \<^verbatim>\<open>SI\<close>.
\<close>

theorem axis_gate_counterexample:
  \<open>\<exists>s' ev. loop (booted False False True) (sample_input\<lparr>acc_x := 5, acc_z := 0\<rparr>) = Inr (s', ev)
     \<and> fires (booted False False True) (sample_input\<lparr>acc_x := 5, acc_z := 0\<rparr>)
     \<and> accel_ok (booted False False True)
     \<and> \<not> (- 4 \<le> acc_x (sample_input\<lparr>acc_x := 5, acc_z := 0\<rparr>)
          \<and> acc_x (sample_input\<lparr>acc_x := 5, acc_z := 0\<rparr>) \<le> 4)
     \<and> pubs_on ''sensores/accel_datos'' ev =
          [[Lit ''{"x":'', OfFloat (Fin 5) 3, Lit '',"y":'', OfFloat (Fin 0) 3,
            Lit '',"z":'', OfFloat (Fin 0) 3, Lit '',"mag":'', OfFloat (Fin 5) 3, Lit ''}'']]
     \<and> pubs_on ''sensores/accel_mag'' ev = [[OfFloat (Fin 5) 3]]
     \<and> pubs_on ''sensores/movimiento'' ev = [[Lit ''SI'']]\<close>
  by (simp add: loop_def fires_def tick_def advance_def announce_def read_htu21d_def
      read_max30105_def read_mma8452q_def system_status_def resumen_def finger_status_def
      booted_def initial_def sample_input_def RATE_SIZE_def Let_def signed_modulo_int_def
      magnitud_5 orientacion_def)

subsection \<open>Temperature and humidity\<close>

text \<open>
  Claim C10. On a tick where the measurement of the environment sensor succeeds, the
  temperature is published exactly when it is finite and in \<open>[-40, 125]\<close> and its error
  is published exactly when it is not; the humidity is published exactly when it is finite
  and in \<open>[0, 100]\<close> and its error exactly when it is not. Neither test looks at the
  other value.
\<close>

theorem env_independent:
  assumes "loop s i = Inr (s', ev)" and "fires s i" and "htu21d_ok s" and "measure_ok i"
  shows "pubs_on ''sensores/temperatura'' ev =
           (if \<exists>r. temperatura i = Fin r \<and> - 40 \<le> r \<and> r \<le> 125
            then [[OfFloat (temperatura i) 2]] else [])
     \<and> pubs_on ''sensores/humedad'' ev =
           (if \<exists>r. humedad i = Fin r \<and> 0 \<le> r \<and> r \<le> 100
            then [[OfFloat (humedad i) 2]] else [])
     \<and> ([Lit ''HTU21D: temperatura invalida''] \<in> set (pubs_on ''sensores/error'' ev))
         = (\<not> (\<exists>r. temperatura i = Fin r \<and> - 40 \<le> r \<and> r \<le> 125))
     \<and> ([Lit ''HTU21D: humedad invalida''] \<in> set (pubs_on ''sensores/error'' ev))
         = (\<not> (\<exists>r. humedad i = Fin r \<and> 0 \<le> r \<and> r \<le> 100))"
proof -
  let ?T = "\<not> isnan (temperatura i) \<and> f_ge (temperatura i) (- 40) \<and> f_le (temperatura i) 125"
  let ?H = "\<not> isnan (humedad i) \<and> f_ge (humedad i) 0 \<and> f_le (humedad i) 100"
  have t: "pubs_on ''sensores/temperatura'' ev = (if ?T then [[OfFloat (temperatura i) 2]] else [])"
    using assms(3,4)
    by (simp add: loop_fires_pubs[OF assms(1,2)] pubs_on_other read_htu21d_def)
  have h: "pubs_on ''sensores/humedad'' ev = (if ?H then [[OfFloat (humedad i) 2]] else [])"
    using assms(3,4)
    by (simp add: loop_fires_pubs[OF assms(1,2)] pubs_on_other read_htu21d_def)
  have e: "pubs_on ''sensores/error'' ev =
            (if ?T then [] else [[Lit ''HTU21D: temperatura invalida'']])
            @ (if ?H then [] else [[Lit ''HTU21D: humedad invalida'']])
            @ (if accel_ok s \<and> \<not> available i then [[Lit ''MMA8452Q: sin nuevos datos'']] else [])"
    using assms(3,4)
    by (simp add: loop_fires_pubs[OF assms(1,2)] pubs_on_other pubs_on_error_mma read_htu21d_def)
  show ?thesis
    unfolding t h e in_range_iff[symmetric] by simp
qed

theorem env_independent_witness:
  "\<exists>s' ev. loop (booted True False False) (sample_input\<lparr>temperatura := NaN\<rparr>) = Inr (s', ev)
     \<and> fires (booted True False False) (sample_input\<lparr>temperatura := NaN\<rparr>)
     \<and> htu21d_ok (booted True False False)
     \<and> measure_ok (sample_input\<lparr>temperatura := NaN\<rparr>)
     \<and> pubs_on ''sensores/temperatura'' ev = []
     \<and> pubs_on ''sensores/humedad'' ev = [[OfFloat (Fin 50) 2]]
     \<and> [Lit ''HTU21D: temperatura invalida''] \<in> set (pubs_on ''sensores/error'' ev)
     \<and> [Lit ''HTU21D: humedad invalida''] \<notin> set (pubs_on ''sensores/error'' ev)"
proof -
  let ?s = "booted True False False" and ?i = "sample_input\<lparr>temperatura := NaN\<rparr>"
  obtain s' ev where h: "loop ?s ?i = Inr (s', ev)"
    using loop_returns[of ?i ?s] by (auto simp: booted_def initial_def sample_input_def)
  have f: "fires ?s ?i"
    by (simp add: fires_def booted_def initial_def sample_input_def)
  have m: "htu21d_ok ?s" "measure_ok ?i"
    by (simp_all add: booted_def sample_input_def)
  from env_independent[OF h f m]
  have "pubs_on ''sensores/temperatura'' ev = []"
    and "pubs_on ''sensores/humedad'' ev = [[OfFloat (Fin 50) 2]]"
    and "[Lit ''HTU21D: temperatura invalida''] \<in> set (pubs_on ''sensores/error'' ev)"
    and "[Lit ''HTU21D: humedad invalida''] \<notin> set (pubs_on ''sensores/error'' ev)"
    by (simp_all add: sample_input_def)
  with h f m show ?thesis by blast
qed

subsection \<open>The running average\<close>

text \<open>
  Claim C1, as amended. The claim says that the averaged BPM equals the arithmetic mean
  of the four slots. \<^verbatim>\<open>beatAvg\<close> is an \<^verbatim>\<open>int\<close> and \<^verbatim>\<open>beatAvg /= RATE_SIZE\<close> is the
  division of integers: in every state of a session (at boot, where all is zero, and
  after every accepted beat, whether or not the buffer has been filled) \<^verbatim>\<open>beatAvg\<close> is
  the sum of the four slots divided by four and rounded down, that is the integer part of
  their arithmetic mean.
\<close>

theorem running_average:
  assumes "session b is = Inr (s, ev)"
  shows "length (rates s) = 4
     \<and> beatAvg s = (\<Sum>r\<leftarrow>rates s. uint r) div 4
     \<and> beatAvg s = \<lfloor>(\<Sum>r\<leftarrow>rates s. real_of_int (uint r)) / 4\<rfloor>"
proof -
  from assms obtain e1 where
    "run (booted (htu_begin b) (max_begin b) (accel_begin b)) is = Inr (s, e1)"
    by (auto elim: session_Inr)
  from run_inv(1)[OF this booted_inv(1)]
  have a: "length (rates s) = 4" "beatAvg s = (\<Sum>r\<leftarrow>rates s. uint r) div 4"
    by (simp_all add: avg_inv_def RATE_SIZE_def)
  have "\<lfloor>(\<Sum>r\<leftarrow>rates s. real_of_int (uint r)) / 4\<rfloor> = (\<Sum>r\<leftarrow>rates s. uint r) div 4"
    unfolding sum_real_uint by (rule floor_mean)
  with a show ?thesis by (simp only: simp_thms)
qed

theorem running_average_witness:
  "\<exists>s ev. session (boot_with False True False)
            [beat_at 2001, beat_at 4002, beat_at 6003, beat_at 8103] = Inr (s, ev)
     \<and> rates s = [29, 29, 29, 28]
     \<and> beatAvg s = (\<Sum>r\<leftarrow>rates s. uint r) div 4
     \<and> beatAvg s = \<lfloor>(\<Sum>r\<leftarrow>rates s. real_of_int (uint r)) / 4\<rfloor>"
proof -
  from four_beats obtain ev where
    h: "session (boot_with False True False)
          [beat_at 2001, beat_at 4002, beat_at 6003, beat_at 8103] =
        Inr (initial\<lparr>max30102_ok := True, rates := [29, 29, 29, 28], rateSpot := 0,
                     lastBeat := 8103, beatsPerMinute := Fin (200 / 7), beatAvg := 28,
                     lastMsg := 8103, contador := 4\<rparr>, ev)"
    by blast
  from running_average[OF h] h show ?thesis
    by (intro exI conjI) (assumption, simp_all)
qed

text \<open>
  After four accepted beats the slots hold 29, 29, 29 and 28: their mean is 28.75 and
  \<^verbatim>\<open>beatAvg\<close> is 28. The averages published on the four ticks are 7, 14, 21 and 28.
\<close>

theorem running_average_counterexample:
  "\<exists>s ev. session (boot_with False True False)
            [beat_at 2001, beat_at 4002, beat_at 6003, beat_at 8103] = Inr (s, ev)
     \<and> rates s = [29, 29, 29, 28] \<and> beatAvg s = 28
     \<and> (\<Sum>r\<leftarrow>rates s. real_of_int (uint r)) / 4 = 115 / 4
     \<and> real_of_int (beatAvg s) \<noteq> (\<Sum>r\<leftarrow>rates s. real_of_int (uint r)) / 4
     \<and> pubs_on ''sensores/bpm_avg'' ev = [[OfInt 7], [OfInt 14], [OfInt 21], [OfInt 28]]"
proof -
  from four_beats obtain ev where
    h: "session (boot_with False True False)
          [beat_at 2001, beat_at 4002, beat_at 6003, beat_at 8103] =
        Inr (initial\<lparr>max30102_ok := True, rates := [29, 29, 29, 28], rateSpot := 0,
                     lastBeat := 8103, beatsPerMinute := Fin (200 / 7), beatAvg := 28,
                     lastMsg := 8103, contador := 4\<rparr>, ev)"
    and p: "pubs_on ''sensores/bpm_avg'' ev = [[OfInt 7], [OfInt 14], [OfInt 21], [OfInt 28]]"
    by blast
  from h p show ?thesis
    by (intro exI conjI) (assumption, simp_all)
qed

subsection \<open>The values in the ring buffer\<close>

text \<open>
  Claim C2, as amended. The claim says that every slot of the ring buffer holds a value
  strictly between 20 and 255. The slots are zero until they are written, and the value
  written is \<^verbatim>\<open>(byte)beatsPerMinute\<close>, the BPM without its fraction, so that a BPM
  between 20 and 21 is stored as 20. In every state of a session the buffer has its four
  slots, the write index points at one of them, and each slot holds zero or a value from
  20 to 254. From such a state a beat whose BPM is strictly between 20 and 255 is written,
  without its fraction, into the slot at the write index, the other slots keep their
  values and the index moves to the next slot, the first after the fourth; any other beat
  leaves the buffer and the index as they are.
\<close>

theorem ring_buffer_values:
  assumes "session b is = Inr (s, ev)"
  shows "length (rates s) = 4 \<and> unat (rateSpot s) < 4
     \<and> (\<forall>r\<in>set (rates s). r = 0 \<or> (20 \<le> uint r \<and> uint r \<le> 254))
     \<and> (if f_lt (bpm_of (sint (millis_delta i - lastBeat s))) 255
            \<and> f_gt (bpm_of (sint (millis_delta i - lastBeat s))) 20
         then rates (heart_beat s i) ! unat (rateSpot s)
                = byte_cast (bpm_of (sint (millis_delta i - lastBeat s)))
              \<and> (\<exists>r. bpm_of (sint (millis_delta i - lastBeat s)) = Fin r
                     \<and> uint (rates (heart_beat s i) ! unat (rateSpot s)) = \<lfloor>r\<rfloor>)
              \<and> (\<forall>j<4. j \<noteq> unat (rateSpot s) \<longrightarrow>
                     rates (heart_beat s i) ! j = rates s ! j)
              \<and> length (rates (heart_beat s i)) = 4
              \<and> unat (rateSpot (heart_beat s i)) = (unat (rateSpot s) + 1) mod 4
         else rates (heart_beat s i) = rates s \<and> rateSpot (heart_beat s i) = rateSpot s)"
proof -
  let ?b = "bpm_of (sint (millis_delta i - lastBeat s))"
  from assms obtain e1 where
    "run (booted (htu_begin b) (max_begin b) (accel_begin b)) is = Inr (s, e1)"
    by (auto elim: session_Inr)
  from run_inv(2)[OF this booted_inv(2)]
  have len: "length (rates s) = 4" and spot: "unat (rateSpot s) < 4"
    and vals: "\<forall>r\<in>set (rates s). r = 0 \<or> (20 \<le> uint r \<and> uint r \<le> 254)"
    by (simp_all add: slots_inv_def RATE_SIZE_def)
  show ?thesis
  proof (cases "f_lt ?b 255 \<and> f_gt ?b 20")
    case False
    then have "rates (heart_beat s i) = rates s"
      unfolding heart_beat_rates by (rule if_not_P)
    moreover from False have "rateSpot (heart_beat s i) = rateSpot s"
      unfolding heart_beat_rateSpot by (rule if_not_P)
    ultimately show ?thesis
      using False len spot vals by (simp only: if_False simp_thms)
  next
    case True
    then obtain r where r: "?b = Fin r" "20 < r" "r < 255" by (auto elim: gate_finite)
    from True have w: "rates (heart_beat s i) = (rates s)[unat (rateSpot s) := byte_cast ?b]"
      unfolding heart_beat_rates by (rule if_P)
    from True have n: "rateSpot (heart_beat s i) = (rateSpot s + 1) mod word_of_nat RATE_SIZE"
      unfolding heart_beat_rateSpot by (rule if_P)
    have a: "rates (heart_beat s i) ! unat (rateSpot s) = byte_cast ?b"
      unfolding w using len spot by simp
    have "uint (byte_cast ?b) = \<lfloor>r\<rfloor>"
      unfolding r(1) by (rule byte_cast_range(1)[OF r(2,3)])
    with a r(1) have b: "\<exists>r. ?b = Fin r
        \<and> uint (rates (heart_beat s i) ! unat (rateSpot s)) = \<lfloor>r\<rfloor>"
      by simp
    have c: "\<forall>j<4. j \<noteq> unat (rateSpot s) \<longrightarrow> rates (heart_beat s i) ! j = rates s ! j"
      unfolding w by simp
    have d: "length (rates (heart_beat s i)) = 4"
      unfolding w using len by simp
    have e: "unat (rateSpot (heart_beat s i)) = (unat (rateSpot s) + 1) mod 4"
      unfolding n by (simp only: unat_next_spot unat_succ_spot[OF spot])
    from True a b c d e len spot vals show ?thesis
      by (simp only: if_True simp_thms)
  qed
qed

theorem ring_buffer_values_witness:
  "\<exists>s ev. session (boot_with False True False) [beat_at 2900] = Inr (s, ev)
     \<and> rates s = [20, 0, 0, 0] \<and> unat (rateSpot s) = 1
     \<and> (\<forall>r\<in>set (rates s). r = 0 \<or> (20 \<le> uint r \<and> uint r \<le> 254))
     \<and> rates (heart_beat s (beat_at 8000)) = rates s
     \<and> rates (heart_beat s (beat_at 5000)) ! 1 = 28
     \<and> unat (rateSpot (heart_beat s (beat_at 5000))) = 2"
proof -
  let ?s = "initial\<lparr>max30102_ok := True, rates := [20, 0, 0, 0], rateSpot := 1,
                     lastBeat := 2900, beatsPerMinute := Fin (600 / 29), beatAvg := 5,
                     lastMsg := 2900, contador := 1\<rparr>"
  from one_slow_beat obtain ev where
    h: "session (boot_with False True False) [beat_at 2900] = Inr (?s, ev)"
    by blast
  from ring_buffer_values[OF h, of "beat_at 8000"]
  have a: "\<forall>r\<in>set (rates ?s). r = 0 \<or> (20 \<le> uint r \<and> uint r \<le> 254)"
    and b: "rates (heart_beat ?s (beat_at 8000)) = rates ?s"
    by (simp_all add: beat_at_def bpm_of_def)
  from ring_buffer_values[OF h, of "beat_at 5000"]
  have c: "rates (heart_beat ?s (beat_at 5000)) ! 1 = 28"
    and d: "unat (rateSpot (heart_beat ?s (beat_at 5000))) = 2"
    by (simp_all add: beat_at_def bpm_of_def)
  from h a b c d show ?thesis
    by (intro exI conjI) (assumption, simp_all)
qed

text \<open>
  One beat 2900 ms after boot: the BPM is about 20.69; it passes the gate and is stored
  as 20, next to three slots that are still zero.
\<close>

theorem ring_buffer_values_counterexample:
  "\<exists>s ev. session (boot_with False True False) [beat_at 2900] = Inr (s, ev)
     \<and> rates s = [20, 0, 0, 0]
     \<and> \<not> (\<forall>r\<in>set (rates s). 20 < uint r \<and> uint r < 255)"
proof -
  from one_slow_beat obtain ev where
    h: "session (boot_with False True False) [beat_at 2900] =
        Inr (initial\<lparr>max30102_ok := True, rates := [20, 0, 0, 0], rateSpot := 1,
                     lastBeat := 2900, beatsPerMinute := Fin (600 / 29), beatAvg := 5,
                     lastMsg := 2900, contador := 1\<rparr>, ev)"
    by blast
  then show ?thesis
    by (intro exI conjI) (assumption, simp_all)
qed

subsection \<open>A sensor that fails at boot\<close>

text \<open>
  Claim C3. When the \<^verbatim>\<open>begin\<close> of a sensor fails at boot, its flag is false at the end
  of every session, and in the whole session the only event that concerns the sensor is
  that one \<^verbatim>\<open>begin\<close>: no reading of it is published on any later tick, its driver is
  not asked for a sample, and \<^verbatim>\<open>begin\<close> is not called again.
\<close>

theorem unhealthy_for_the_session:
  assumes "session b is = Inr (s, ev)" and "\<not> begin_ok b x"
  shows "\<not> sensor_ok s x \<and> filter (concerns x) ev = [Begin x]"
proof -
  let ?s0 = "booted (htu_begin b) (max_begin b) (accel_begin b)"
  from assms(1) obtain e0 e1 where
    s: "setup_main b = Inr (?s0, e0)" and r: "run ?s0 is = Inr (s, e1)" and e: "ev = e0 @ e1"
    by (rule session_Inr)
  have "\<not> sensor_ok ?s0 x"
    using assms(2) by (cases x) (simp_all add: booted_def)
  from concerns_run[OF r this] concerns_setup[OF s assms(2)] e show ?thesis by simp
qed

theorem unhealthy_for_the_session_witness:
  "\<exists>s ev. session (boot_with False True True) [sample_input] = Inr (s, ev)
     \<and> \<not> begin_ok (boot_with False True True) HTU21D
     \<and> \<not> sensor_ok s HTU21D \<and> filter (concerns HTU21D) ev = [Begin HTU21D]"
proof -
  obtain s ev where h: "session (boot_with False True True) [sample_input] = Inr (s, ev)"
    by (simp add: run_defs)
  have n: "\<not> begin_ok (boot_with False True True) HTU21D"
    by (simp add: boot_with_def)
  from unhealthy_for_the_session[OF h n] h n show ?thesis by blast
qed

subsection \<open>The tick counter across reconnections\<close>

text \<open>
  Claim C8, as amended. The claim says that the counter rises by exactly one across every
  pair of consecutive ticks. \<^verbatim>\<open>contador\<close> is an \<^verbatim>\<open>int\<close> of 32 bits, and the tick that
  finds it at \<open>2 ^ 31 - 1\<close>, the tick after \<open>2 ^ 31 - 1\<close> others, overflows it: the
  behaviour is undefined in C++, and no value one higher exists. Below that value a call
  of \<^verbatim>\<open>loop\<close> returns whenever the link is up or some connection attempt succeeds; if it
  runs a tick it increases the counter by exactly one and publishes the new value, and if
  it runs no tick it leaves the counter as it is, whether or not the call had to reconnect
  first. So along any run the published values are \<open>c + 1, c + 2, ..., c + n\<close> from the
  value \<open>c\<close> at its start, and the counter ends at \<open>c + n\<close>: it is never reset.
\<close>

theorem tick_counter:
  "(contador s \<noteq> 2147483647 \<and> (link_up i \<or> (\<exists>k. connect_results i k)) \<longrightarrow>
      (\<exists>s1 e1. loop s i = Inr (s1, e1)
         \<and> contador s1 = (if fires s i then contador s + 1 else contador s)
         \<and> pubs_on ''sensores/contador'' e1
             = (if fires s i then [[OfInt (contador s + 1)]] else [])))
   \<and> (loop s i = Inr (s1, e1) \<longrightarrow>
      contador s1 = (if fires s i then contador s + 1 else contador s)
      \<and> pubs_on ''sensores/contador'' e1 = (if fires s i then [[OfInt (contador s + 1)]] else []))
   \<and> (run s ins = Inr (s', ev) \<longrightarrow>
      (\<exists>n. contador s' = contador s + int n
         \<and> pubs_on ''sensores/contador'' ev =
             map (\<lambda>j. [OfInt (contador s + 1 + int j)]) [0..<n]))
   \<and> (contador s = 2147483647 \<and> fires s i \<and> (link_up i \<or> (\<exists>k. connect_results i k)) \<longrightarrow>
      loop s i = Inl SignedOverflow)"
proof -
  have a: "\<exists>s1 e1. loop s i = Inr (s1, e1)
         \<and> contador s1 = (if fires s i then contador s + 1 else contador s)
         \<and> pubs_on ''sensores/contador'' e1
             = (if fires s i then [[OfInt (contador s + 1)]] else [])"
    if "contador s \<noteq> 2147483647" and "link_up i \<or> (\<exists>k. connect_results i k)"
  proof -
    from loop_returns_general[OF that(2,1)] obtain s2 e2 where l: "loop s i = Inr (s2, e2)"
      by blast
    from l loop_contador[OF l] show ?thesis by blast
  qed
  from a loop_contador[of s i s1 e1] run_contador[of s ins s' ev] loop_overflow[of i s]
  show ?thesis by blast
qed

theorem tick_counter_witness:
  "\<exists>s1 e1 s' ev.
     loop (booted False False False) sample_input = Inr (s1, e1)
     \<and> contador s1 = 1 \<and> pubs_on ''sensores/contador'' e1 = [[OfInt 1]]
     \<and> run (booted False False False)
         [sample_input,
          sample_input\<lparr>link_up := False, connect_results := third_try, now := 3000\<rparr>,
          sample_input\<lparr>now := 9002\<rparr>] = Inr (s', ev)
     \<and> contador s' = 2
     \<and> pubs_on ''sensores/contador'' ev = [[OfInt 1], [OfInt 2]]
     \<and> pubs_on ''sensores/status'' ev
         = [[Lit ''ESP32 conectado - Iniciando lecturas de sensores'']]
     \<and> contador (after_calls 2147483647) = 2147483647
     \<and> fires (after_calls 2147483647) (call_at 2147483648)
     \<and> loop (after_calls 2147483647) (call_at 2147483648) = Inl SignedOverflow"
proof -
  let ?s = "booted False False False"
  let ?is = "[sample_input,
          sample_input\<lparr>link_up := False, connect_results := third_try, now := 3000\<rparr>,
          sample_input\<lparr>now := 9002\<rparr>]"
  have u: "contador ?s \<noteq> 2147483647 \<and> (link_up sample_input \<or> (\<exists>k. connect_results sample_input k))"
    by (simp add: booted_def initial_def sample_input_def)
  have f: "fires ?s sample_input"
    by (simp add: fires_def booted_def initial_def sample_input_def)
  have z: "contador ?s = 0"
    by (simp add: booted_def initial_def)
  obtain s' ev where r: "run ?s ?is = Inr (s', ev)"
    and c: "contador s' = 2"
    and p: "pubs_on ''sensores/status'' ev
         = [[Lit ''ESP32 conectado - Iniciando lecturas de sensores'']]"
    by (simp add: run_defs)
  from tick_counter[where s = ?s and i = sample_input and ?s1.0 = ?s and ?e1.0 = "[]"
      and ins = ?is and s' = s' and ev = ev] u
  have "\<exists>s1 e1. loop ?s sample_input = Inr (s1, e1)
         \<and> contador s1 = (if fires ?s sample_input then contador ?s + 1 else contador ?s)
         \<and> pubs_on ''sensores/contador'' e1
             = (if fires ?s sample_input then [[OfInt (contador ?s + 1)]] else [])"
    by blast
  with f z obtain s1 e1 where l: "loop ?s sample_input = Inr (s1, e1)"
    and a: "contador s1 = 1" "pubs_on ''sensores/contador'' e1 = [[OfInt 1]]"
    by auto
  from tick_counter[where s = ?s and i = sample_input and ?s1.0 = ?s and ?e1.0 = "[]"
      and ins = ?is and s' = s' and ev = ev] r
  have "\<exists>n. contador s' = contador ?s + int n
           \<and> pubs_on ''sensores/contador'' ev
               = map (\<lambda>j. [OfInt (contador ?s + 1 + int j)]) [0..<n]"
    by blast
  with z have "\<exists>n. contador s' = int n
           \<and> pubs_on ''sensores/contador'' ev = map (\<lambda>j. [OfInt (1 + int j)]) [0..<n]"
    by simp
  with c have "pubs_on ''sensores/contador'' ev = map (\<lambda>j. [OfInt (1 + int j)]) [0..<2]"
    by auto
  then have q: "pubs_on ''sensores/contador'' ev = [[OfInt 1], [OfInt 2]]"
    by (simp add: upt_rec)
  have m: "contador (after_calls 2147483647) = 2147483647"
    by (simp add: after_calls_def)
  have g: "fires (after_calls 2147483647) (call_at 2147483648)"
    using fires_call[of 2147483647] by simp
  have v: "link_up (call_at 2147483648)"
    by (simp add: call_at_def sample_input_def)
  from tick_counter[where s = "after_calls 2147483647" and i = "call_at 2147483648"
      and ?s1.0 = ?s and ?e1.0 = "[]" and ins = "[]" and s' = ?s and ev = "[]"] m g v
  have o: "loop (after_calls 2147483647) (call_at 2147483648) = Inl SignedOverflow"
    by blast
  from l a r c q p m g o show ?thesis by blast
qed

text \<open>
  The session of \<open>2 ^ 31 - 1\<close> ticks after a boot without sensors leaves the counter at
  \<open>2 ^ 31 - 1\<close>; the next call runs a tick and does not return a counter one higher.
\<close>

theorem tick_counter_counterexample:
  "(\<exists>ev. run (booted False False False) (calls 0 2147483647)
            = Inr (after_calls 2147483647, ev))
   \<and> contador (after_calls 2147483647) = 2147483647
   \<and> link_up (call_at 2147483648)
   \<and> fires (after_calls 2147483647) (call_at 2147483648)
   \<and> loop (after_calls 2147483647) (call_at 2147483648) = Inl SignedOverflow
   \<and> \<not> (\<exists>s' ev. loop (after_calls 2147483647) (call_at 2147483648) = Inr (s', ev)
            \<and> contador s' = contador (after_calls 2147483647) + 1)"
proof -
  have r: "\<exists>ev. run (booted False False False) (calls 0 2147483647)
            = Inr (after_calls 2147483647, ev)"
    using run_calls[of 0 2147483647] by (simp add: after_calls_0)
  have m: "contador (after_calls 2147483647) = 2147483647"
    by (simp add: after_calls_def)
  have g: "fires (after_calls 2147483647) (call_at 2147483648)"
    using fires_call[of 2147483647] by simp
  have v: "link_up (call_at 2147483648)"
    by (simp add: call_at_def sample_input_def)
  from v have "link_up (call_at 2147483648) \<or> (\<exists>k. connect_results (call_at 2147483648) k)"
    by simp
  from loop_overflow[OF this g m]
  have o: "loop (after_calls 2147483647) (call_at 2147483648) = Inl SignedOverflow" .
  from r m v g o show ?thesis by simp
qed

subsection \<open>A broker that never answers\<close>

text \<open>
  Claim C6, as amended. The claim says that when the broker connection never succeeds the
  main loop keeps running and drops its publications. \<^verbatim>\<open>reconnect\<close> is a loop without
  bound: a call of \<^verbatim>\<open>loop\<close> never returns exactly when it finds the link down and no
  connection attempt ever succeeds, and \<^verbatim>\<open>setup\<close> never returns exactly when no
  attempt at boot succeeds. Such a call attempts no publication and reads no sensor:
  after any number \<open>m\<close> of turns of the loop it has waited \<open>m\<close> times 5000 ms and done
  nothing else, so a session whose broker never answers consists of the waits of the
  network polling and of these waits, and a run whose link goes down for good consists of
  the events of its earlier calls and of these waits. When the link is down and attempt
  \<open>n\<close> is the first to succeed, the call waits \<open>n\<close> times 5000 ms, publishes its
  notice and goes on with its tick. Only the polling of the network at boot is bounded,
  by 30 waits. (A bounded call that has returned is the call itself.)
\<close>

theorem reconnect_blocks:
  "(loop s i = Inl ReconnectNeverReturns) = (\<not> link_up i \<and> (\<forall>k. \<not> connect_results i k))
   \<and> (setup_main b = Inl ReconnectNeverReturns) = (\<forall>k. \<not> boot_connect b k)
   \<and> (\<not> link_up i \<and> (\<forall>k. \<not> connect_results i k) \<longrightarrow>
        loop_within s i m = Inl (replicate m (Delay 5000)))
   \<and> ((\<forall>k. \<not> boot_connect b k) \<longrightarrow>
        session_within b ins m = Inl (setup_wifi (wifi_status b) @ replicate m (Delay 5000)))
   \<and> (run s pre = Inr (s1, ev1) \<and> (\<forall>j\<in>set pre. link_up j)
        \<and> \<not> link_up i \<and> (\<forall>k. \<not> connect_results i k) \<longrightarrow>
        run_within s (pre @ i # post) m = Inl (ev1 @ replicate m (Delay 5000)))
   \<and> (\<not> link_up i \<and> connect_results i n \<and> (\<forall>j<n. \<not> connect_results i j) \<longrightarrow>
        loop s i =
          (if fires s i then
             (case tick s i of
                Inl e \<Rightarrow> Inl e
              | Inr (s', evs) \<Rightarrow> Inr (s', (replicate n (Delay 5000) @ [status_pub]) @ evs))
           else Inr (s, replicate n (Delay 5000) @ [status_pub])))
   \<and> length (setup_wifi st) \<le> 31 \<and> set (setup_wifi st) \<subseteq> {Delay 10, Delay 500}
   \<and> (loop_within s i m = Inr r \<longrightarrow> r = loop s i)
   \<and> (session_within b ins m = Inr r' \<longrightarrow> r' = session b ins)"
  using loop_blocked_iff[of s i] setup_blocked_iff[of b] loop_recovers[of i n s]
    setup_wifi_bounded[of st] setup_wifi_delays[of st]
    loop_within_blocked[of i s m] session_within_blocked[of b ins m]
    run_within_blocked[of s pre s1 ev1 i post m]
    loop_within_Inr[of s i m r] session_within_Inr[of b ins m r']
  by blast

theorem reconnect_blocks_witness:
  "\<not> link_up (sample_input\<lparr>link_up := False, connect_results := third_try, now := 1000\<rparr>)
   \<and> third_try 2 \<and> \<not> third_try 0 \<and> \<not> third_try 1
   \<and> loop (booted True True True)
        (sample_input\<lparr>link_up := False, connect_results := third_try, now := 1000\<rparr>)
      = Inr (booted True True True, [Delay 5000, Delay 5000, status_pub])
   \<and> loop_within (booted True True True)
        (sample_input\<lparr>link_up := False, connect_results := third_try, now := 1000\<rparr>) 3
      = Inr (Inr (booted True True True, [Delay 5000, Delay 5000, status_pub]))
   \<and> loop (booted True True True) (sample_input\<lparr>link_up := False, connect_results := never\<rparr>)
      = Inl ReconnectNeverReturns
   \<and> loop_within (booted True True True)
        (sample_input\<lparr>link_up := False, connect_results := never\<rparr>) 3
      = Inl [Delay 5000, Delay 5000, Delay 5000]
   \<and> session_within (boot_with True True True\<lparr>boot_connect := never\<rparr>) [sample_input] 2
      = Inl [Delay 10, Delay 5000, Delay 5000]
   \<and> (\<exists>s1 ev1. run (booted False False False) [sample_input] = Inr (s1, ev1)
        \<and> topics ev1 = [''sensores/contador'', ''sensores/resumen'', ''sistema/wifi_ip'',
                        ''sistema/wifi_status'', ''sistema/uptime'']
        \<and> run_within (booted False False False)
             [sample_input, sample_input\<lparr>link_up := False, connect_results := never\<rparr>] 2
           = Inl (ev1 @ [Delay 5000, Delay 5000]))"
proof -
  let ?i = "sample_input\<lparr>link_up := False, connect_results := third_try, now := 1000\<rparr>"
  let ?j = "sample_input\<lparr>link_up := False, connect_results := never\<rparr>"
  let ?s = "booted True True True"
  let ?b = "boot_with True True True\<lparr>boot_connect := never\<rparr>"
  have a: "\<not> link_up ?i \<and> connect_results ?i 2 \<and> (\<forall>j<2. \<not> connect_results ?i j)"
    by (simp add: sample_input_def third_try_def)
  have f: "\<not> fires ?s ?i"
    by (simp add: fires_def booted_def initial_def)
  have b: "\<not> link_up ?j \<and> (\<forall>k. \<not> connect_results ?j k)"
    by (simp add: sample_input_def never_def)
  have n: "\<forall>k. \<not> boot_connect ?b k"
    by (simp add: boot_with_def never_def)
  have w: "setup_wifi (wifi_status ?b) = [Delay 10]"
    by (simp add: boot_with_def setup_wifi_def wifi_poll.simps at_once_def)
  have t: "third_try 2" "\<not> third_try 0" "\<not> third_try 1"
    by (simp_all add: third_try_def)
  have rep3: "replicate 3 (Delay 5000) = [Delay 5000, Delay 5000, Delay 5000]"
    by (simp add: numeral_3_eq_3)
  have rep2: "replicate 2 (Delay 5000) = [Delay 5000, Delay 5000]"
    by (simp add: numeral_2_eq_2)
  have "reconnect_within third_try False 0 [] (Suc (Suc (Suc 0)))
          = Inr (3, [Delay 5000, Delay 5000, status_pub])"
    by (simp add: third_try_def)
  then have "reconnect_within third_try False 0 [] 3
          = Inr (3, [Delay 5000, Delay 5000, status_pub])"
    by (simp only: numeral_3_eq_3)
  with f have l3: "loop_within ?s ?i 3 = Inr (Inr (?s, [Delay 5000, Delay 5000, status_pub]))"
    by (simp add: loop_within_def)
  from reconnect_blocks[where s = ?s and i = ?i and n = 2]
  have "\<not> link_up ?i \<and> connect_results ?i 2 \<and> (\<forall>j<2. \<not> connect_results ?i j) \<longrightarrow>
        loop ?s ?i =
          (if fires ?s ?i then
             (case tick ?s ?i of
                Inl e \<Rightarrow> Inl e
              | Inr (s', evs) \<Rightarrow> Inr (s', (replicate 2 (Delay 5000) @ [status_pub]) @ evs))
           else Inr (?s, replicate 2 (Delay 5000) @ [status_pub]))"
    by blast
  with a have "loop ?s ?i =
          (if fires ?s ?i then
             (case tick ?s ?i of
                Inl e \<Rightarrow> Inl e
              | Inr (s', evs) \<Rightarrow> Inr (s', (replicate 2 (Delay 5000) @ [status_pub]) @ evs))
           else Inr (?s, replicate 2 (Delay 5000) @ [status_pub]))"
    by (rule rev_mp)
  with f have c1: "loop ?s ?i = Inr (?s, [Delay 5000, Delay 5000, status_pub])"
    by (simp only: rep2 if_False append_Cons append_Nil)
  from reconnect_blocks[where s = ?s and i = ?j and m = 3] b
  have "loop ?s ?j = Inl ReconnectNeverReturns"
    and "loop_within ?s ?j 3 = Inl (replicate 3 (Delay 5000))"
    by blast+
  then have c2: "loop ?s ?j = Inl ReconnectNeverReturns"
    and c3: "loop_within ?s ?j 3 = Inl [Delay 5000, Delay 5000, Delay 5000]"
    by (simp_all only: rep3)
  from reconnect_blocks[where b = ?b and ins = "[sample_input]" and m = 2] n
  have "session_within ?b [sample_input] 2
          = Inl (setup_wifi (wifi_status ?b) @ replicate 2 (Delay 5000))"
    by blast
  then have c4: "session_within ?b [sample_input] 2 = Inl [Delay 10, Delay 5000, Delay 5000]"
    by (simp only: rep2 w append_Cons append_Nil)
  obtain s1 ev1 where r: "run (booted False False False) [sample_input] = Inr (s1, ev1)"
    and tp: "topics ev1 = [''sensores/contador'', ''sensores/resumen'', ''sistema/wifi_ip'',
                        ''sistema/wifi_status'', ''sistema/uptime'']"
    by (simp add: run_defs)
  have u: "\<forall>j\<in>set [sample_input]. link_up j"
    by (simp add: sample_input_def)
  from reconnect_blocks[where s = "booted False False False" and pre = "[sample_input]"
      and ?s1.0 = s1 and ?ev1.0 = ev1 and i = ?j and post = "[]" and m = 2] r u b
  have "run_within (booted False False False) ([sample_input] @ ?j # []) 2
              = Inl (ev1 @ replicate 2 (Delay 5000))"
    by blast
  then have c5: "run_within (booted False False False) [sample_input, ?j] 2
              = Inl (ev1 @ [Delay 5000, Delay 5000])"
    by (simp only: rep2 append_Cons append_Nil)
  from a t c1 l3 c2 c3 c4 r tp c5 show ?thesis by blast
qed

text \<open>With a broker that never answers, neither \<^verbatim>\<open>loop\<close> nor \<^verbatim>\<open>setup\<close> returns.\<close>

theorem reconnect_blocks_counterexample:
  "loop (booted True True True) (sample_input\<lparr>link_up := False, connect_results := never\<rparr>)
     = Inl ReconnectNeverReturns
   \<and> setup_main (boot_with True True True\<lparr>boot_connect := never\<rparr>) = Inl ReconnectNeverReturns
   \<and> session (boot_with True True True\<lparr>wifi_status := never, boot_connect := never\<rparr>)
       [sample_input] = Inl ReconnectNeverReturns"
proof -
  have n: "reconnect never False 0 ev = None" for ev
    by (rule reconnect_never) (simp add: never_def)
  show ?thesis
    by (simp add: loop_def setup_main_def session_def n sample_input_def boot_with_def)
qed

end
